theory Spec2Isabelle
  imports Main "HOL-Library.AList"
begin

section \<open>The class analyser of the qooxdoo compiler (Analyser.js)\<close>

text \<open>
  A shallow embedding of \<^verbatim>\<open>lib/qx/tool/compiler/Analyser.js\<close>: the staleness check of
  \<^verbatim>\<open>getClassInfo\<close>, the indirect-load lift of \<^verbatim>\<open>analyseClasses\<close>, and the meta merge
  (\<^verbatim>\<open>updateMetaData\<close>, \<^verbatim>\<open>analyzeMeta\<close>, \<^verbatim>\<open>saveMetaData\<close>).

  Conventions.
  \<^item> A JavaScript object used as a dictionary is an association list in insertion order
    (the order of \<^verbatim>\<open>for .. in\<close> and of \<^verbatim>\<open>Object.keys\<close>); \<open>AList.update\<close> overwrites
    a key in place and appends a new one, as an assignment \<^verbatim>\<open>o[k] = v\<close> does.
  \<^item> An object written \<^verbatim>\<open>{}\<close> inherits the members of \<^verbatim>\<open>Object.prototype\<close>: reading a key
    that the object does not hold finds the member of that name of \<^verbatim>\<open>Object.prototype\<close>
    (\<open>lookupKey\<close>). The entity tables and \<^verbatim>\<open>meta.members\<close> are read in this way, under
    member and property names. Class names (the keys of \<^verbatim>\<open>cachedMeta\<close>, \<^verbatim>\<open>compiledClasses\<close>,
    \<^verbatim>\<open>metaFixupDescendants\<close>, \<^verbatim>\<open>metaWrittenLog\<close>, \<^verbatim>\<open>toSave\<close> and the database) are taken
    to be none of these names, and no object to have the key \<^verbatim>\<open>__proto__\<close>, which an
    assignment cannot create.
  \<^item> \<^verbatim>\<open>null\<close>, \<^verbatim>\<open>undefined\<close> and an absent key are \<open>None\<close>; a test of truthiness on
    a string holds for every non-empty string.
  \<^item> A function that can loop forever takes fuel and returns \<open>None\<close> when it runs out; a
    function that can throw returns the error as \<open>Inl\<close>.
\<close>

subsection \<open>JavaScript objects and values\<close>

type_synonym 'v obj = "(string \<times> 'v) list"

definition keys :: "'v obj \<Rightarrow> string list" where
  "keys ob = map fst ob"

definition truthy :: "string option \<Rightarrow> bool" where
  "truthy v = (case v of None \<Rightarrow> False | Some s \<Rightarrow> s \<noteq> [])"

definition js_str :: "string option \<Rightarrow> string" where
  "js_str v = (case v of None \<Rightarrow> ''undefined'' | Some s \<Rightarrow> s)"

definition js_Boolean :: "bool option \<Rightarrow> bool" where
  "js_Boolean b = (b = Some True)"

definition startsWith :: "string \<Rightarrow> string \<Rightarrow> bool" where
  "startsWith s p = (take (length p) s = p)"

text \<open>
  The names of the members of \<^verbatim>\<open>Object.prototype\<close>, all of them functions, and what
  reading the key \<open>k\<close> of a plain object gives: the object's own value, the function it
  inherits, or \<^verbatim>\<open>undefined\<close>.
\<close>

definition objectPrototypeNames :: "string list" where
  "objectPrototypeNames =
     [''constructor'', ''__defineGetter__'', ''__defineSetter__'', ''hasOwnProperty'',
      ''__lookupGetter__'', ''__lookupSetter__'', ''isPrototypeOf'', ''propertyIsEnumerable'',
      ''toString'', ''valueOf'', ''toLocaleString'']"

datatype 'v found = Absent | Inherited | Own 'v

definition lookupKey :: "'v obj \<Rightarrow> string \<Rightarrow> 'v found" where
  "lookupKey ob k =
     (case map_of ob k of
        Some v \<Rightarrow> Own v
      | None \<Rightarrow> if k \<in> set objectPrototypeNames then Inherited else Absent)"

text \<open>What the code throws or hands to a callback.\<close>

datatype error =
  ENOCLASSFILE string
  | IoError string
  | CompileError string
  | TypeError string
  | WrittenTwice string

fun foldE :: "('a \<Rightarrow> 's \<Rightarrow> error + 's) \<Rightarrow> 'a list \<Rightarrow> 's \<Rightarrow> error + 's" where
  "foldE f [] s = Inr s"
| "foldE f (x # xs) s = (case f x s of Inl e \<Rightarrow> Inl e | Inr s' \<Rightarrow> foldE f xs s')"

text \<open>
  \<^verbatim>\<open>qx.lang.String.firstUp\<close> belongs to the qooxdoo framework, not to this file: it
  upper-cases the first character of a string. It is modelled on the ASCII letters.
\<close>

definition toUpperCase_char :: "char \<Rightarrow> char" where
  "toUpperCase_char c =
     (let n = (of_char c :: nat) in if 97 \<le> n \<and> n \<le> 122 then char_of (n - 32) else c)"

definition firstUp :: "string \<Rightarrow> string" where
  "firstUp s = (case s of [] \<Rightarrow> [] | c # cs \<Rightarrow> toUpperCase_char c # cs)"

subsection \<open>JSDoc, class meta and the entity table\<close>

record jsdoc_tag =
  tag_name :: string
  tag_body :: "string option"
  tag_type :: "string option"
  tag_paramName :: "string option"
  tag_desc :: "string option"

type_synonym jsdoc = "jsdoc_tag list obj"

text \<open>A row of \<^verbatim>\<open>classEntities.members\<close> or \<^verbatim>\<open>classEntities.properties\<close>.\<close>

record entity_info =
  ei_appearsIn :: "string obj"
  ei_overriddenFrom :: "string option"
  ei_jsdoc :: "jsdoc option"
  ei_abstract :: bool
  ei_mixin :: bool
  ei_inherited :: bool
  ei_access :: string
  ei_property :: "string option"
  ei_interface :: bool

record classEntities =
  ce_members :: "entity_info obj"
  ce_properties :: "entity_info obj"

text \<open>An entry of \<^verbatim>\<open>meta.members\<close>.\<close>

record member_meta =
  mm_type :: string
  mm_name :: "string option"
  mm_abstract :: "bool option"
  mm_mixin :: "bool option"
  mm_inherited :: "bool option"
  mm_access :: "string option"
  mm_property :: "string option"
  mm_appearsIn :: "string list option"
  mm_overriddenFrom :: "string option"
  mm_jsdoc :: "jsdoc option"

text \<open>
  \<^verbatim>\<open>appearsIn\<close> of a property entry is either the table's object (class name to type,
  copied by reference for a refined property) or a list of keys.
\<close>

datatype appears = AppearsObj "string obj" | AppearsKeys "string list"

text \<open>An entry of \<^verbatim>\<open>meta.properties\<close>.\<close>

record property_meta =
  pm_type :: "string option"
  pm_name :: "string option"
  pm_check :: "string option"
  pm_async :: bool
  pm_refine :: bool
  pm_abstract :: "bool option"
  pm_mixin :: "bool option"
  pm_access :: "string option"
  pm_property :: "string option"
  pm_appearsIn :: "appears option"
  pm_overriddenFrom :: "string option"
  pm_jsdoc :: "jsdoc option"

text \<open>\<^verbatim>\<open>meta.superClass\<close>: absent, a name, or (for interfaces) an array of names.\<close>

datatype super = NoSuper | Single string | Multi "string list"

record class_meta =
  cm_type :: string
  cm_className :: string
  cm_superClass :: super
  cm_interfaces :: "string list option"
  cm_mixins :: "string list option"
  cm_properties :: "property_meta obj option"
  cm_members :: "member_meta obj option"
  cm_abstract :: "bool option"
  cm_descendants :: "string list option"

subsection \<open>The ancestor walk: \<^verbatim>\<open>analyseClassEntities\<close>\<close>

definition hasSignature :: "jsdoc option \<Rightarrow> bool" where
  "hasSignature j =
     (case j of
        None \<Rightarrow> False
      | Some d \<Rightarrow>
          (case map_of d ''@param'' of
             Some (p # ps) \<Rightarrow> True
           | _ \<Rightarrow> (case map_of d ''@return'' of Some (r # rs) \<Rightarrow> True | _ \<Rightarrow> False)))"

definition access_of :: "string \<Rightarrow> string" where
  "access_of entityName =
     (if startsWith entityName ''__'' then ''private''
      else if startsWith entityName ''_'' then ''protected'' else ''public'')"

definition newEntityInfo :: "string \<Rightarrow> bool \<Rightarrow> string \<Rightarrow> entity_info" where
  "newEntityInfo mtype first entityName =
     \<lparr> ei_appearsIn = [], ei_overriddenFrom = None, ei_jsdoc = None,
       ei_abstract = (mtype = ''interface''), ei_mixin = (mtype = ''mixin''),
       ei_inherited = (\<not> first), ei_access = access_of entityName,
       ei_property = None, ei_interface = False \<rparr>"

text \<open>
  The functions of \<^verbatim>\<open>Object.prototype\<close> are shared by every object of the process. The
  walk can store a \<^verbatim>\<open>jsdoc\<close> field on such a function (line 536) and the write-back can
  read it (line 683): \<open>docs name\<close> is that field of the function \<open>name\<close>.
\<close>

type_synonym protoJsdoc = "string \<Rightarrow> jsdoc option"

text \<open>
  Lines 516 to 537 on the row \<open>e0\<close> of an entity: \<open>mtype\<close> and \<open>mclassName\<close> are
  \<^verbatim>\<open>meta.type\<close> and \<^verbatim>\<open>meta.className\<close>, \<open>eprop\<close> and \<open>ejsdoc\<close> are \<^verbatim>\<open>entityMeta.property\<close>
  and \<^verbatim>\<open>entityMeta.jsdoc\<close>.
\<close>

definition recordRow ::
  "string \<Rightarrow> string \<Rightarrow> bool \<Rightarrow> string option \<Rightarrow> jsdoc option \<Rightarrow> entity_info \<Rightarrow> entity_info"
  where
  "recordRow mtype mclassName first eprop ejsdoc e0 =
     (let e1 = (if truthy eprop then e0\<lparr>ei_property := eprop\<rparr> else e0);
          e2 = (if mtype = ''mixin'' \<and> ei_abstract e1 then e1\<lparr>ei_mixin := True\<rparr> else e1);
          e3 = (if mtype \<noteq> ''interface'' then e2\<lparr>ei_abstract := False\<rparr>
                else e2\<lparr>ei_interface := True\<rparr>);
          e4 = (if \<not> first
                then e3\<lparr>ei_appearsIn := AList.update mclassName mtype (ei_appearsIn e3)\<rparr>
                else e3);
          e5 = (if \<not> first \<and> \<not> truthy (ei_overriddenFrom e4)
                then e4\<lparr>ei_overriddenFrom := Some mclassName\<rparr> else e4)
      in if ei_jsdoc e5 = None \<and> hasSignature ejsdoc then e5\<lparr>ei_jsdoc := ejsdoc\<rparr> else e5)"

text \<open>
  The body of the loop over the entries of one section of one visited meta (lines 504 to
  537), on the section's table and the \<^verbatim>\<open>jsdoc\<close> fields of the inherited functions. For a
  name of \<^verbatim>\<open>Object.prototype\<close> that the table does not hold, \<^verbatim>\<open>entityInfo\<close> is the
  inherited function: no row is made; on the visit of an ancestor the assignment to
  \<^verbatim>\<open>entityInfo.appearsIn[...]\<close> throws a \<^verbatim>\<open>TypeError\<close>, as \<^verbatim>\<open>appearsIn\<close> is undefined; on
  the class itself the function takes the \<^verbatim>\<open>jsdoc\<close> when it has none. (Its fields
  \<^verbatim>\<open>property\<close>, \<^verbatim>\<open>interface\<close> and \<^verbatim>\<open>abstract\<close> are written too; none is read with an
  effect, \<^verbatim>\<open>abstract\<close> being only ever set to \<^verbatim>\<open>false\<close>.)
\<close>

definition recordEntity ::
  "string \<Rightarrow> string \<Rightarrow> bool \<Rightarrow> string \<Rightarrow> string option \<Rightarrow> jsdoc option \<Rightarrow>
   entity_info obj \<times> protoJsdoc \<Rightarrow> error + entity_info obj \<times> protoJsdoc" where
  "recordEntity mtype mclassName first entityName eprop ejsdoc acc =
     (case acc of (sect, docs) \<Rightarrow>
        (case lookupKey sect entityName of
           Absent \<Rightarrow>
             Inr (AList.update entityName
                    (recordRow mtype mclassName first eprop ejsdoc
                       (newEntityInfo mtype first entityName)) sect, docs)
         | Own entityInfo \<Rightarrow>
             Inr (AList.update entityName
                    (recordRow mtype mclassName first eprop ejsdoc entityInfo) sect, docs)
         | Inherited \<Rightarrow>
             if \<not> first then Inl (TypeError entityName)
             else Inr (sect,
                       if docs entityName = None \<and> hasSignature ejsdoc
                       then docs(entityName := ejsdoc) else docs)))"

definition recordMembers ::
  "class_meta \<Rightarrow> bool \<Rightarrow> entity_info obj \<times> protoJsdoc \<Rightarrow> error + entity_info obj \<times> protoJsdoc"
  where
  "recordMembers meta first acc =
     (case cm_members meta of
        None \<Rightarrow> Inr acc
      | Some ms \<Rightarrow>
          foldE (\<lambda>(entityName, entityMeta) s.
                   if mm_type entityMeta = ''function''
                   then recordEntity (cm_type meta) (cm_className meta) first entityName
                          (mm_property entityMeta) (mm_jsdoc entityMeta) s
                   else Inr s) ms acc)"

definition recordProperties ::
  "class_meta \<Rightarrow> bool \<Rightarrow> entity_info obj \<times> protoJsdoc \<Rightarrow> error + entity_info obj \<times> protoJsdoc"
  where
  "recordProperties meta first acc =
     (case cm_properties meta of
        None \<Rightarrow> Inr acc
      | Some ps \<Rightarrow>
          foldE (\<lambda>(entityName, entityMeta) s.
                   recordEntity (cm_type meta) (cm_className meta) first entityName
                     (pm_property entityMeta) (pm_jsdoc entityMeta) s) ps acc)"

text \<open>The members, then the properties (line 496); the first throw ends the visit.\<close>

definition recordEntities ::
  "class_meta \<Rightarrow> bool \<Rightarrow> classEntities \<times> protoJsdoc \<Rightarrow> error + classEntities \<times> protoJsdoc"
  where
  "recordEntities meta first acc =
     (case acc of (ce, docs) \<Rightarrow>
        (case recordMembers meta first (ce_members ce, docs) of
           Inl e \<Rightarrow> Inl e
         | Inr (members, docs1) \<Rightarrow>
             (case recordProperties meta first (ce_properties ce, docs1) of
                Inl e \<Rightarrow> Inl e
              | Inr (properties, docs2) \<Rightarrow>
                  Inr (\<lparr> ce_members = members, ce_properties = properties \<rparr>, docs2))))"

subsection \<open>Property accessor synthesis: \<^verbatim>\<open>addPropertyAccessor\<close>\<close>

definition descriptionTag :: "string \<Rightarrow> jsdoc_tag" where
  "descriptionTag desc =
     \<lparr> tag_name = ''@description'', tag_body = Some desc, tag_type = None,
       tag_paramName = None, tag_desc = None \<rparr>"

definition returnTag :: "string \<Rightarrow> property_meta \<Rightarrow> jsdoc_tag" where
  "returnTag returnType propertyMeta =
     \<lparr> tag_name = ''@return'', tag_body = None, tag_type = Some returnType,
       tag_paramName = None,
       tag_desc = Some (''Returns the value for '' @ js_str (pm_name propertyMeta)) \<rparr>"

definition paramTag :: "string \<Rightarrow> property_meta \<Rightarrow> jsdoc_tag" where
  "paramTag valueType propertyMeta =
     \<lparr> tag_name = ''@param'', tag_body = None, tag_type = Some valueType,
       tag_paramName = Some ''value'',
       tag_desc = Some (''Value for '' @ js_str (pm_name propertyMeta)) \<rparr>"

definition accessorJsdoc ::
  "property_meta \<Rightarrow> string option \<Rightarrow> string option \<Rightarrow> string \<Rightarrow> jsdoc" where
  "accessorJsdoc propertyMeta returnType valueType desc =
     [(''@description'', [descriptionTag desc])]
     @ (if truthy returnType then [(''@return'', [returnTag (the returnType) propertyMeta])]
        else [])
     @ (if truthy valueType then [(''@param'', [paramTag (the valueType) propertyMeta])]
        else [])"

text \<open>
  The row that \<^verbatim>\<open>addPropertyAccessor\<close> writes. \<^verbatim>\<open>entityInfo.appearsIn[0]\<close> reads the key
  \<^verbatim>\<open>"0"\<close> of an object whose keys are class names.
\<close>

definition newAccessorInfo ::
  "bool \<Rightarrow> property_meta \<Rightarrow> string \<Rightarrow> string option \<Rightarrow> string option \<Rightarrow> string \<Rightarrow>
   entity_info option \<Rightarrow> entity_info" where
  "newAccessorInfo first propertyMeta accessorType returnType valueType desc entityInfo =
     \<lparr> ei_appearsIn = (case entityInfo of Some e \<Rightarrow> ei_appearsIn e | None \<Rightarrow> []),
       ei_overriddenFrom =
         (case entityInfo of
            None \<Rightarrow> None
          | Some e \<Rightarrow> (if truthy (map_of (ei_appearsIn e) ''0'')
                       then map_of (ei_appearsIn e) ''0'' else None)),
       ei_jsdoc = Some (accessorJsdoc propertyMeta returnType valueType desc),
       ei_abstract = False,
       ei_mixin = js_Boolean (pm_mixin propertyMeta),
       ei_inherited = (\<not> first),
       ei_access = ''public'',
       ei_property = Some accessorType,
       ei_interface = False \<rparr>"

definition addPropertyAccessor ::
  "bool \<Rightarrow> property_meta \<Rightarrow> string \<Rightarrow> string \<Rightarrow> string option \<Rightarrow> string option \<Rightarrow>
   string \<Rightarrow> entity_info obj \<Rightarrow> entity_info obj" where
  "addPropertyAccessor first propertyMeta methodName accessorType returnType valueType desc
     members =
     (case lookupKey members methodName of
        Absent \<Rightarrow>
          AList.update methodName
            (newAccessorInfo first propertyMeta accessorType returnType valueType desc None)
            members
      | Own entityInfo \<Rightarrow>
          if ei_abstract entityInfo
          then AList.update methodName
                 (newAccessorInfo first propertyMeta accessorType returnType valueType desc
                    (Some entityInfo))
                 members
          else members
      | Inherited \<Rightarrow> members)"

text \<open>
  The test \<^verbatim>\<open>!entityInfo || entityInfo.abstract\<close> of \<^verbatim>\<open>addPropertyAccessor\<close>; an inherited
  function is neither undefined nor abstract.
\<close>

definition synthesizes :: "entity_info obj \<Rightarrow> string \<Rightarrow> bool" where
  "synthesizes members methodName =
     (case lookupKey members methodName of
        Absent \<Rightarrow> True
      | Own entityInfo \<Rightarrow> ei_abstract entityInfo
      | Inherited \<Rightarrow> False)"

definition newline :: string where
  "newline = [CHR 0x0A]"

definition getterMsg :: "string \<Rightarrow> string" where
  "getterMsg propertyName =
     ''Gets the (computed) value of the property <code>'' @ propertyName @ ''</code>.''
     @ newline @ newline
     @ ''For further details take a look at the property definition: {@link #''
     @ propertyName @ ''}.''"

definition setterMsg :: "string \<Rightarrow> string" where
  "setterMsg propertyName =
     ''Sets the user value of the property <code>'' @ propertyName @ ''</code>.''
     @ newline @ newline
     @ ''For further details take a look at the property definition: {@link #''
     @ propertyName @ ''}.''"

definition resetMsg :: "string \<Rightarrow> string" where
  "resetMsg propertyName =
     ''Resets the user value of the property <code>'' @ propertyName @ ''</code>.''
     @ newline @ newline
     @ ''The computed value falls back to the next available value e.g. appearance, init or inheritance value ''
     @ ''depending on the property configuration and value availability.''
     @ newline @ newline
     @ ''For further details take a look at the property definition: {@link #''
     @ propertyName @ ''}.''"

definition getterAsyncMsg :: "string \<Rightarrow> string" where
  "getterAsyncMsg propertyName =
     ''Returns a {@link qx.Promise} which resolves to the (computed) value of the property <code>''
     @ propertyName @ ''</code>.''
     @ newline
     @ ''For further details take a look at the property definition: {@link #''
     @ propertyName @ ''}.''"

definition setterAsyncMsg :: "string \<Rightarrow> string" where
  "setterAsyncMsg propertyName =
     ''Sets the user value of the property <code>'' @ propertyName
     @ ''</code>, returns a {@link qx.Promise} ''
     @ ''which resolves when the value change has fully completed (in the case where there are asynchronous apply methods or events).''
     @ newline @ newline
     @ ''For further details take a look at the property definition: {@link #''
     @ propertyName @ ''}.''"

text \<open>The body of the loop over \<^verbatim>\<open>meta.properties\<close> (lines 604 to 644), in its order.\<close>

definition propertyType :: "property_meta \<Rightarrow> string" where
  "propertyType propertyMeta =
     (if truthy (pm_check propertyMeta) then the (pm_check propertyMeta) else ''any'')"

definition addAsyncAccessors ::
  "bool \<Rightarrow> string \<Rightarrow> property_meta \<Rightarrow> entity_info obj \<Rightarrow> entity_info obj" where
  "addAsyncAccessors first propertyName propertyMeta members =
     (let upname = firstUp propertyName;
          type = propertyType propertyMeta;
          msg = getterAsyncMsg propertyName;
          m1 = addPropertyAccessor first propertyMeta (''get'' @ upname @ ''Async'')
                 ''getAsync'' (Some ''Promise'') None msg members;
          m2 = (if type = ''Boolean''
                then addPropertyAccessor first propertyMeta (''is'' @ upname @ ''Async'')
                       ''isAsync'' (Some ''Promise'') None msg m1
                else m1)
      in addPropertyAccessor first propertyMeta (''set'' @ upname @ ''Async'')
           ''setAsync'' (Some ''Promise'') (Some type) (setterAsyncMsg propertyName) m2)"

definition addAccessors ::
  "bool \<Rightarrow> string \<Rightarrow> property_meta \<Rightarrow> entity_info obj \<Rightarrow> entity_info obj" where
  "addAccessors first propertyName propertyMeta members =
     (let upname = firstUp propertyName;
          type = propertyType propertyMeta;
          msg = getterMsg propertyName;
          m1 = addPropertyAccessor first propertyMeta (''get'' @ upname) ''get''
                 (Some type) None msg members;
          m2 = (if type = ''Boolean''
                then addPropertyAccessor first propertyMeta (''is'' @ upname) ''is''
                       (Some type) None msg m1
                else m1);
          m3 = addPropertyAccessor first propertyMeta (''set'' @ upname) ''set''
                 None (Some type) (setterMsg propertyName) m2;
          m4 = addPropertyAccessor first propertyMeta (''reset'' @ upname) ''reset''
                 None None (resetMsg propertyName) m3
      in if pm_async propertyMeta
         then addAsyncAccessors first propertyName propertyMeta m4
         else m4)"

definition synthesizeAccessors :: "class_meta \<Rightarrow> bool \<Rightarrow> classEntities \<Rightarrow> classEntities" where
  "synthesizeAccessors meta first ce =
     (case cm_properties meta of
        None \<Rightarrow> ce
      | Some ps \<Rightarrow>
          ce\<lparr>ce_members :=
               fold (\<lambda>(propertyName, propertyMeta) m.
                       addAccessors first propertyName propertyMeta m) ps (ce_members ce)\<rparr>)"

subsection \<open>The meta cache: \<^verbatim>\<open>loadMetaData\<close>\<close>

text \<open>
  \<open>disk name\<close> is the result of reading and parsing the meta file of class \<open>name\<close>
  (\<open>None\<close> when the read or the parse fails); \<^verbatim>\<open>cachedMeta\<close> is the cache of one run.
\<close>

type_synonym store = "string \<Rightarrow> class_meta option"

definition loadMetaData :: "store \<Rightarrow> string \<Rightarrow> store \<Rightarrow> class_meta option \<times> store" where
  "loadMetaData disk classname cachedMeta =
     (if classname = ''Object'' \<or> classname = ''Array'' \<or> classname = ''Error''
      then (None, cachedMeta)
      else (case cachedMeta classname of
              Some meta \<Rightarrow> (Some meta, cachedMeta)
            | None \<Rightarrow>
                (case disk classname of
                   Some meta \<Rightarrow> (Some meta, cachedMeta(classname \<mapsto> meta))
                 | None \<Rightarrow> (None, cachedMeta))))"

record walk_state =
  ws_entities :: classEntities
  ws_cache :: store
  ws_protoJsdoc :: protoJsdoc

fun forEachM ::
  "('a \<Rightarrow> 's \<Rightarrow> (error + 's) option) \<Rightarrow> 'a list \<Rightarrow> 's \<Rightarrow> (error + 's) option" where
  "forEachM f [] s = Some (Inr s)"
| "forEachM f (x # xs) s =
     (case f x s of
        None \<Rightarrow> None
      | Some (Inl e) \<Rightarrow> Some (Inl e)
      | Some (Inr s') \<Rightarrow> forEachM f xs s')"

definition namesOf :: "string list option \<Rightarrow> string list" where
  "namesOf xs = (case xs of None \<Rightarrow> [] | Some ns \<Rightarrow> ns)"

definition superNames :: "super \<Rightarrow> string list" where
  "superNames s =
     (case s of NoSuper \<Rightarrow> [] | Single n \<Rightarrow> (if n = [] then [] else [n]) | Multi ns \<Rightarrow> ns)"

text \<open>
  The three loops of lines 542 to 561: the interfaces, the mixins, then the super-class
  (or super-classes), each name handed to \<open>visit\<close>.
\<close>

definition walkAncestors ::
  "(string \<Rightarrow> walk_state \<Rightarrow> (error + walk_state) option) \<Rightarrow> class_meta \<Rightarrow> walk_state \<Rightarrow>
   (error + walk_state) option" where
  "walkAncestors visit meta st1 =
     (case forEachM visit (namesOf (cm_interfaces meta)) st1 of
        None \<Rightarrow> None
      | Some (Inl e) \<Rightarrow> Some (Inl e)
      | Some (Inr st2) \<Rightarrow>
          (case forEachM visit (namesOf (cm_mixins meta)) st2 of
             None \<Rightarrow> None
           | Some (Inl e) \<Rightarrow> Some (Inl e)
           | Some (Inr st3) \<Rightarrow> forEachM visit (superNames (cm_superClass meta)) st3))"

text \<open>Lines 496 to 540 on the state of the walk.\<close>

definition recordVisit :: "class_meta \<Rightarrow> bool \<Rightarrow> walk_state \<Rightarrow> error + walk_state" where
  "recordVisit meta first st =
     (case recordEntities meta first (ws_entities st, ws_protoJsdoc st) of
        Inl e \<Rightarrow> Inl e
      | Inr (ce, docs) \<Rightarrow> Inr (st\<lparr>ws_entities := ce, ws_protoJsdoc := docs\<rparr>))"

text \<open>
  \<^verbatim>\<open>analyseClassEntities(meta, first)\<close>. The source keeps no set of visited classes, so a
  cyclic hierarchy is walked forever; each call consumes one unit of fuel. A call on a
  name is the call on what \<open>loadMetaData\<close> returns for it; \<open>None\<close> for the meta is the
  early \<^verbatim>\<open>return\<close> on a meta that could not be loaded.
\<close>

fun analyseClassEntities ::
  "store \<Rightarrow> nat \<Rightarrow> class_meta option \<Rightarrow> bool \<Rightarrow> walk_state \<Rightarrow> (error + walk_state) option"
  where
  "analyseClassEntities disk 0 meta first st = None"
| "analyseClassEntities disk (Suc k) None first st = Some (Inr st)"
| "analyseClassEntities disk (Suc k) (Some meta) first st =
     (case recordVisit meta first st of
        Inl e \<Rightarrow> Some (Inl e)
      | Inr st1 \<Rightarrow>
          (case walkAncestors
                  (\<lambda>name s.
                     case loadMetaData disk name (ws_cache s) of
                       (m, c) \<Rightarrow> analyseClassEntities disk k m False (s\<lparr>ws_cache := c\<rparr>))
                  meta st1 of
             None \<Rightarrow> None
           | Some (Inl e) \<Rightarrow> Some (Inl e)
           | Some (Inr st4) \<Rightarrow>
               Some (Inr (st4\<lparr>ws_entities :=
                                 synthesizeAccessors meta first (ws_entities st4)\<rparr>))))"

subsection \<open>Write-back to the meta: \<^verbatim>\<open>updateMetaData\<close>\<close>

definition mergeSignature :: "jsdoc option \<Rightarrow> jsdoc option \<Rightarrow> jsdoc option" where
  "mergeSignature src mjsdoc =
     (case src of
        None \<Rightarrow> mjsdoc
      | Some s \<Rightarrow>
          if \<not> hasSignature src \<or> hasSignature mjsdoc then mjsdoc
          else
            (let j0 = (case mjsdoc of None \<Rightarrow> [] | Some j \<Rightarrow> j);
                 j1 = (case map_of s ''@param'' of
                         Some p \<Rightarrow> AList.update ''@param'' p j0 | None \<Rightarrow> j0);
                 j2 = (case map_of s ''@return'' of
                         Some r \<Rightarrow> AList.update ''@return'' r j1 | None \<Rightarrow> j1)
             in Some j2))"

text \<open>
  Lines 677 to 685. For a refined property under a name of \<^verbatim>\<open>Object.prototype\<close> that the
  table does not hold, \<^verbatim>\<open>result\<close> is the inherited function: its \<^verbatim>\<open>overriddenFrom\<close> and
  \<^verbatim>\<open>appearsIn\<close> are undefined, its \<^verbatim>\<open>jsdoc\<close> is what the walk stored.
\<close>

definition refineProperty ::
  "classEntities \<Rightarrow> protoJsdoc \<Rightarrow> string \<Rightarrow> property_meta \<Rightarrow> property_meta" where
  "refineProperty ce docs propertyName propertyMeta =
     (if pm_refine propertyMeta
      then (case lookupKey (ce_properties ce) propertyName of
              Absent \<Rightarrow> propertyMeta
            | Own result \<Rightarrow>
                propertyMeta\<lparr> pm_overriddenFrom := ei_overriddenFrom result,
                              pm_appearsIn := Some (AppearsObj (ei_appearsIn result)),
                              pm_jsdoc := mergeSignature (ei_jsdoc result) (pm_jsdoc propertyMeta) \<rparr>
            | Inherited \<Rightarrow>
                propertyMeta\<lparr> pm_overriddenFrom := None,
                              pm_appearsIn := None,
                              pm_jsdoc := mergeSignature (docs propertyName) (pm_jsdoc propertyMeta) \<rparr>)
      else propertyMeta)"

text \<open>
  The entry of lines 691 to 713. \<^verbatim>\<open>propertyInfo.appearsIn.length\<close> reads the key
  \<^verbatim>\<open>"length"\<close> of the \<^verbatim>\<open>appearsIn\<close> object.
\<close>

definition materializedProperty :: "string \<Rightarrow> entity_info \<Rightarrow> property_meta" where
  "materializedProperty propertyName propertyInfo =
     \<lparr> pm_type = Some ''property'',
       pm_name = Some propertyName,
       pm_check = None,
       pm_async = False,
       pm_refine = False,
       pm_abstract = Some (ei_abstract propertyInfo),
       pm_mixin = Some (ei_mixin propertyInfo),
       pm_access = Some (ei_access propertyInfo),
       pm_property = None,
       pm_appearsIn =
         (if truthy (map_of (ei_appearsIn propertyInfo) ''length'')
          then (if keys (ei_appearsIn propertyInfo) = [] then None
                else Some (AppearsKeys (keys (ei_appearsIn propertyInfo))))
          else None),
       pm_overriddenFrom =
         (if truthy (ei_overriddenFrom propertyInfo) then ei_overriddenFrom propertyInfo
          else None),
       pm_jsdoc = ei_jsdoc propertyInfo \<rparr>"

text \<open>
  The loop of lines 688 to 715. \<^verbatim>\<open>meta.properties[propertyInfo]\<close> indexes the map with an
  object, that is with the key \<^verbatim>\<open>"[object Object]"\<close>.
\<close>

definition materializeProperties ::
  "classEntities \<Rightarrow> property_meta obj \<Rightarrow> property_meta obj" where
  "materializeProperties ce props =
     fold (\<lambda>(propertyName, propertyInfo) ps.
             if (ei_abstract propertyInfo \<or> ei_mixin propertyInfo)
                \<and> map_of ps ''[object Object]'' = None
             then AList.update propertyName (materializedProperty propertyName propertyInfo) ps
             else ps)
       (ce_properties ce) props"

definition writeBackProperties ::
  "classEntities \<Rightarrow> protoJsdoc \<Rightarrow> property_meta obj option \<Rightarrow> property_meta obj option" where
  "writeBackProperties ce docs props =
     (case props of
        None \<Rightarrow> None
      | Some ps \<Rightarrow>
          Some (materializeProperties ce
                  (map (\<lambda>(propertyName, propertyMeta).
                          (propertyName, refineProperty ce docs propertyName propertyMeta)) ps)))"

text \<open>
  Lines 722 to 730 on one member. For a method under a name of \<^verbatim>\<open>Object.prototype\<close> that
  the table does not hold, \<^verbatim>\<open>result\<close> is the inherited function and
  \<^verbatim>\<open>Object.keys(result.appearsIn)\<close> throws a \<^verbatim>\<open>TypeError\<close>.
\<close>

definition mergeMember :: "classEntities \<Rightarrow> string \<Rightarrow> member_meta \<Rightarrow> error + member_meta" where
  "mergeMember ce memberName memberMeta =
     (if mm_type memberMeta = ''function''
      then (case lookupKey (ce_members ce) memberName of
              Absent \<Rightarrow> Inr memberMeta
            | Own result \<Rightarrow>
                Inr (memberMeta\<lparr> mm_overriddenFrom := ei_overriddenFrom result,
                                 mm_appearsIn := Some (keys (ei_appearsIn result)),
                                 mm_jsdoc := mergeSignature (ei_jsdoc result) (mm_jsdoc memberMeta) \<rparr>)
            | Inherited \<Rightarrow> Inl (TypeError memberName))
      else Inr memberMeta)"

text \<open>The loop of lines 721 to 731.\<close>

fun mergeMembers :: "classEntities \<Rightarrow> member_meta obj \<Rightarrow> error + member_meta obj" where
  "mergeMembers ce [] = Inr []"
| "mergeMembers ce ((memberName, memberMeta) # ms) =
     (case mergeMember ce memberName memberMeta of
        Inl e \<Rightarrow> Inl e
      | Inr memberMeta' \<Rightarrow>
          (case mergeMembers ce ms of
             Inl e \<Rightarrow> Inl e
           | Inr ms' \<Rightarrow> Inr ((memberName, memberMeta') # ms')))"

definition materializedMember :: "string \<Rightarrow> entity_info \<Rightarrow> member_meta" where
  "materializedMember memberName memberInfo =
     \<lparr> mm_type = ''function'',
       mm_name = Some memberName,
       mm_abstract = Some (ei_abstract memberInfo),
       mm_mixin = Some (ei_mixin memberInfo),
       mm_inherited = Some (ei_inherited memberInfo),
       mm_access = Some (ei_access memberInfo),
       mm_property =
         (if truthy (ei_property memberInfo) then ei_property memberInfo else None),
       mm_appearsIn =
         (if truthy (map_of (ei_appearsIn memberInfo) ''length'')
          then Some (keys (ei_appearsIn memberInfo)) else None),
       mm_overriddenFrom = ei_overriddenFrom memberInfo,
       mm_jsdoc = ei_jsdoc memberInfo \<rparr>"

text \<open>
  One round of the loop of lines 732 to 764, on \<^verbatim>\<open>meta.members\<close> and \<^verbatim>\<open>meta.abstract\<close>.
  An inherited function as \<^verbatim>\<open>memberMeta\<close> is no variable and is not undefined: nothing
  is done.
\<close>

definition materializeMember ::
  "string \<times> entity_info \<Rightarrow> member_meta obj \<times> bool option \<Rightarrow> member_meta obj \<times> bool option"
  where
  "materializeMember row acc =
     (case row of (memberName, memberInfo) \<Rightarrow>
      case acc of (members, abstract) \<Rightarrow>
        (case lookupKey members memberName of
           Own memberMeta \<Rightarrow>
             (if mm_type memberMeta = ''variable''
              then AList.update memberName (memberMeta\<lparr>mm_type := ''function''\<rparr>) members
              else members, abstract)
         | Inherited \<Rightarrow> (members, abstract)
         | Absent \<Rightarrow>
             if ei_abstract memberInfo \<or> ei_mixin memberInfo \<or> truthy (ei_property memberInfo)
             then (AList.update memberName (materializedMember memberName memberInfo) members,
                   if ei_abstract memberInfo then Some True else abstract)
             else (members, abstract)))"

definition cleanMember :: "member_meta \<Rightarrow> member_meta" where
  "cleanMember memberMeta =
     (let m1 = (if mm_appearsIn memberMeta = Some [] then memberMeta\<lparr>mm_appearsIn := None\<rparr>
                else memberMeta)
      in if \<not> truthy (mm_overriddenFrom m1) then m1\<lparr>mm_overriddenFrom := None\<rparr> else m1)"

text \<open>
  Lines 675 to 776: the properties, the members that the meta lists, the rows of the
  table, the cleaning.
\<close>

definition writeBack :: "classEntities \<Rightarrow> protoJsdoc \<Rightarrow> class_meta \<Rightarrow> error + class_meta" where
  "writeBack ce docs meta =
     (let props = writeBackProperties ce docs (cm_properties meta)
      in case mergeMembers ce (case cm_members meta of None \<Rightarrow> [] | Some ms \<Rightarrow> ms) of
           Inl e \<Rightarrow> Inl e
         | Inr members1 \<Rightarrow>
             (let (members2, abstract) = fold materializeMember (ce_members ce)
                                           (members1, cm_abstract meta);
                  members3 = map (\<lambda>(memberName, memberMeta).
                                    (memberName, cleanMember memberMeta)) members2
              in Inr (meta\<lparr> cm_properties := props,
                            cm_members := (if members3 = [] then None else Some members3),
                            cm_abstract := abstract \<rparr>)))"

definition emptyEntities :: classEntities where
  "emptyEntities = \<lparr> ce_members = [], ce_properties = [] \<rparr>"

text \<open>
  \<^verbatim>\<open>updateMetaData(classname, meta)\<close>: the merged meta, the cache and the \<^verbatim>\<open>jsdoc\<close> fields
  of the inherited functions as the call leaves them.
\<close>

definition updateMetaData ::
  "store \<Rightarrow> nat \<Rightarrow> string \<Rightarrow> class_meta \<Rightarrow> store \<Rightarrow> protoJsdoc \<Rightarrow>
   (error + class_meta \<times> store \<times> protoJsdoc) option" where
  "updateMetaData disk fuel classname meta cachedMeta docs =
     (case analyseClassEntities disk fuel (Some meta) True
             \<lparr> ws_entities = emptyEntities, ws_cache = cachedMeta, ws_protoJsdoc = docs \<rparr> of
        None \<Rightarrow> None
      | Some (Inl e) \<Rightarrow> Some (Inl e)
      | Some (Inr st) \<Rightarrow>
          (case writeBack (ws_entities st) (ws_protoJsdoc st) meta of
             Inl e \<Rightarrow> Some (Inl e)
           | Inr meta' \<Rightarrow> Some (Inr (meta', ws_cache st, ws_protoJsdoc st))))"

text \<open>
  The state of \<open>updateMetaData\<close> at the moment the walk is back at the class itself: its
  own entities and those of all its ancestors are recorded, the accessors of its own
  properties are not yet added.
\<close>

definition ancestorEntities ::
  "store \<Rightarrow> nat \<Rightarrow> class_meta \<Rightarrow> store \<Rightarrow> protoJsdoc \<Rightarrow> (error + walk_state) option" where
  "ancestorEntities disk k meta cachedMeta docs =
     (case recordVisit meta True
             \<lparr> ws_entities = emptyEntities, ws_cache = cachedMeta, ws_protoJsdoc = docs \<rparr> of
        Inl e \<Rightarrow> Some (Inl e)
      | Inr st1 \<Rightarrow>
          walkAncestors
            (\<lambda>name s.
               case loadMetaData disk name (ws_cache s) of
                 (m, c) \<Rightarrow> analyseClassEntities disk k m False (s\<lparr>ws_cache := c\<rparr>))
            meta st1)"

text \<open>
  The names that the walk visits from a meta, and a bound on the depth of a hierarchy:
  \<open>boundedAncestry L k m\<close> says that the walk from \<open>m\<close> is at most \<open>k\<close> calls deep
  when \<open>L\<close> gives the meta of every name. No cyclic hierarchy has such a bound.
\<close>

definition ancestorNames :: "class_meta \<Rightarrow> string list" where
  "ancestorNames meta =
     namesOf (cm_interfaces meta) @ namesOf (cm_mixins meta) @ superNames (cm_superClass meta)"

fun boundedAncestry :: "(string \<Rightarrow> class_meta option) \<Rightarrow> nat \<Rightarrow> class_meta option \<Rightarrow> bool"
  where
  "boundedAncestry L 0 m = False"
| "boundedAncestry L (Suc k) None = True"
| "boundedAncestry L (Suc k) (Some meta) =
     list_all (\<lambda>c. boundedAncestry L k (L c)) (ancestorNames meta)"

text \<open>What \<open>loadMetaData\<close> returns for a name, as a function of the name.\<close>

definition lookupMeta :: "store \<Rightarrow> store \<Rightarrow> string \<Rightarrow> class_meta option" where
  "lookupMeta disk cachedMeta classname = fst (loadMetaData disk classname cachedMeta)"



text \<open>
  How the cache of a run grows while metas are loaded: an entry stays, or an empty one
  takes what is on disk.
\<close>

definition extendsFromDisk :: "store \<Rightarrow> store \<Rightarrow> store \<Rightarrow> bool" where
  "extendsFromDisk disk ws ws' = (\<forall>x. ws' x = ws x \<or> (ws x = None \<and> ws' x = disk x))"

text \<open>Every meta of the run, cached or on disk, has a hierarchy of depth at most \<open>fuel\<close>.\<close>

definition hierarchyBounded :: "store \<Rightarrow> store \<Rightarrow> nat \<Rightarrow> bool" where
  "hierarchyBounded disk ws fuel =
     (\<forall>c meta. ws c = Some meta \<or> disk c = Some meta \<longrightarrow>
                boundedAncestry (lookupMeta disk ws) fuel (Some meta))"

text \<open>
  The methods and the properties of a meta, and metas none of whose methods and
  properties bears the name of a member of \<^verbatim>\<open>Object.prototype\<close>.
\<close>

definition methodNames :: "class_meta \<Rightarrow> string list" where
  "methodNames meta =
     (case cm_members meta of
        None \<Rightarrow> []
      | Some ms \<Rightarrow> map fst (filter (\<lambda>(n, memberMeta). mm_type memberMeta = ''function'') ms))"

definition propertyNames :: "class_meta \<Rightarrow> string list" where
  "propertyNames meta = (case cm_properties meta of None \<Rightarrow> [] | Some ps \<Rightarrow> keys ps)"

definition plainMethods :: "class_meta \<Rightarrow> bool" where
  "plainMethods meta = list_all (\<lambda>n. n \<notin> set objectPrototypeNames) (methodNames meta)"

definition plainNames :: "class_meta \<Rightarrow> bool" where
  "plainNames meta =
     (plainMethods meta
      \<and> list_all (\<lambda>n. n \<notin> set objectPrototypeNames) (propertyNames meta))"

definition allPlain :: "store \<Rightarrow> store \<Rightarrow> bool" where
  "allPlain disk ws = (\<forall>c meta. ws c = Some meta \<or> disk c = Some meta \<longrightarrow> plainNames meta)"

subsection \<open>The class database and the indirect-load lift\<close>

record dep_flags =
  df_load :: bool
  df_construct :: bool
  df_runtime :: bool

text \<open>A row of \<^verbatim>\<open>db.classInfo\<close>; \<open>ci_mtime\<close> is the modification time in milliseconds.\<close>

record dbClassInfo =
  ci_mtime :: "int option"
  ci_libraryName :: string
  ci_extends :: "string option"
  ci_implement :: "string list option"
  ci_include :: "string list option"
  ci_dependsOn :: "dep_flags obj option"

type_synonym classInfoDb = "dbClassInfo obj"

text \<open>
  \<^verbatim>\<open>getConstructDependencies\<close> reads \<^verbatim>\<open>info.dependsOn\<close> without testing \<^verbatim>\<open>info\<close>: on a
  class that has no row it throws a \<^verbatim>\<open>TypeError\<close>.
\<close>

definition getConstructDependencies :: "classInfoDb \<Rightarrow> string \<Rightarrow> error + string list" where
  "getConstructDependencies db className =
     (case map_of db className of
        None \<Rightarrow> Inl (TypeError className)
      | Some info \<Rightarrow>
          Inr (case ci_dependsOn info of
                 None \<Rightarrow> []
               | Some deps \<Rightarrow> map fst (filter (\<lambda>(depName, f). df_construct f) deps)))"

fun collectConstruct :: "classInfoDb \<Rightarrow> string list \<Rightarrow> error + string list" where
  "collectConstruct db [] = Inr []"
| "collectConstruct db (depName # ds) =
     (case getConstructDependencies db depName of
        Inl e \<Rightarrow> Inl e
      | Inr xs \<Rightarrow>
          (case collectConstruct db ds of Inl e \<Rightarrow> Inl e | Inr ys \<Rightarrow> Inr (xs @ ys)))"

definition getIndirectLoadDependencies :: "classInfoDb \<Rightarrow> string \<Rightarrow> error + string list" where
  "getIndirectLoadDependencies db className =
     (case map_of db className of
        None \<Rightarrow> Inr []
      | Some info \<Rightarrow>
          (case ci_dependsOn info of
             None \<Rightarrow> Inr []
           | Some deps \<Rightarrow>
               collectConstruct db (map fst (filter (\<lambda>(depName, f). df_load f) deps))))"

definition noFlags :: dep_flags where
  "noFlags = \<lparr> df_load = False, df_construct = False, df_runtime = False \<rparr>"

definition setLoad :: "string \<Rightarrow> dbClassInfo \<Rightarrow> dbClassInfo" where
  "setLoad depName info =
     (let deps = (case ci_dependsOn info of None \<Rightarrow> [] | Some d \<Rightarrow> d);
          f = (case map_of deps depName of None \<Rightarrow> noFlags | Some f \<Rightarrow> f)
      in info\<lparr>ci_dependsOn := Some (AList.update depName (f\<lparr>df_load := True\<rparr>) deps)\<rparr>)"

text \<open>
  The \<^verbatim>\<open>classes.forEach\<close> of lines 436 to 448; \<open>liftStep\<close> is its inner
  \<^verbatim>\<open>deps.forEach\<close> on the row of the class.
\<close>

definition liftStep :: "classInfoDb \<Rightarrow> string \<Rightarrow> string list \<Rightarrow> classInfoDb" where
  "liftStep db className deps =
     (case map_of db className of
        None \<Rightarrow> db
      | Some info \<Rightarrow> AList.update className (fold setLoad deps info) db)"

fun liftIndirectLoad :: "string list \<Rightarrow> classInfoDb \<Rightarrow> error + classInfoDb" where
  "liftIndirectLoad [] db = Inr db"
| "liftIndirectLoad (className # cs) db =
     (case getIndirectLoadDependencies db className of
        Inl e \<Rightarrow> Inl e
      | Inr deps \<Rightarrow> liftIndirectLoad cs (liftStep db className deps))"

text \<open>\<^verbatim>\<open>info.dependsOn[d].load\<close> and \<^verbatim>\<open>info.dependsOn[d].construct\<close>, as tests.\<close>

definition infoLoad :: "dbClassInfo \<Rightarrow> string \<Rightarrow> bool" where
  "infoLoad info d =
     (case ci_dependsOn info of
        None \<Rightarrow> False
      | Some deps \<Rightarrow> (case map_of deps d of None \<Rightarrow> False | Some f \<Rightarrow> df_load f))"

definition infoConstruct :: "dbClassInfo \<Rightarrow> string \<Rightarrow> bool" where
  "infoConstruct info d =
     (case ci_dependsOn info of
        None \<Rightarrow> False
      | Some deps \<Rightarrow> (case map_of deps d of None \<Rightarrow> False | Some f \<Rightarrow> df_construct f))"

definition loadDep :: "classInfoDb \<Rightarrow> string \<Rightarrow> string \<Rightarrow> bool" where
  "loadDep db c d = (case map_of db c of None \<Rightarrow> False | Some info \<Rightarrow> infoLoad info d)"

definition constructDep :: "classInfoDb \<Rightarrow> string \<Rightarrow> string \<Rightarrow> bool" where
  "constructDep db c d =
     (case map_of db c of None \<Rightarrow> False | Some info \<Rightarrow> infoConstruct info d)"

text \<open>The names on which \<^verbatim>\<open>getIndirectLoadDependencies\<close> calls \<^verbatim>\<open>getConstructDependencies\<close>.\<close>

definition loadTargets :: "classInfoDb \<Rightarrow> string \<Rightarrow> string list" where
  "loadTargets db className =
     (case map_of db className of
        None \<Rightarrow> []
      | Some info \<Rightarrow>
          (case ci_dependsOn info of
             None \<Rightarrow> []
           | Some deps \<Rightarrow> map fst (filter (\<lambda>(depName, f). df_load f) deps)))"

subsection \<open>The staleness check and compile dispatch: \<^verbatim>\<open>getClassInfo\<close>\<close>

text \<open>
  What \<^verbatim>\<open>getClassInfo\<close> observes of its surroundings, by class name: the library that
  holds the class (its namespace), \<^verbatim>\<open>fs.stat\<close> of the source file (the modification time,
  or the error), \<^verbatim>\<open>fs.exists\<close> of the output file and of the meta file, \<^verbatim>\<open>fs.stat\<close> of
  the output file, and the external compiler: \<^verbatim>\<open>ClassFile.load\<close> fails or gives what
  \<^verbatim>\<open>writeDbInfo\<close> does to the row and what \<^verbatim>\<open>getOuterClassMeta\<close> returns.
\<close>

record fs_env =
  fs_library :: "string \<Rightarrow> string option"
  fs_sourceStat :: "string \<Rightarrow> error + int"
  fs_outputExists :: "string \<Rightarrow> bool"
  fs_metaExists :: "string \<Rightarrow> bool"
  fs_outputStat :: "string \<Rightarrow> error + int"
  fs_load :: "string \<Rightarrow> error + (dbClassInfo \<Rightarrow> dbClassInfo) \<times> class_meta option"

record compiled_data =
  cd_className :: string
  cd_oldDbClassInfo :: "dbClassInfo option"
  cd_dbClassInfo :: dbClassInfo
  cd_meta :: "class_meta option"

datatype event =
  CompilingClass string "dbClassInfo option" dbClassInfo
  | CompiledClass compiled_data

record call_result =
  cr_result :: "error + dbClassInfo"
  cr_db :: classInfoDb
  cr_events :: "event list"

definition isFresh :: "dbClassInfo option \<Rightarrow> int \<Rightarrow> int option \<Rightarrow> bool" where
  "isFresh dbClassInfo stat outputStat =
     (case dbClassInfo of
        None \<Rightarrow> False
      | Some info \<Rightarrow>
          (case outputStat of
             None \<Rightarrow> False
           | Some outputMtime \<Rightarrow>
               (case ci_mtime info of
                  None \<Rightarrow> False
                | Some dbMtime \<Rightarrow> dbMtime = stat \<and> outputMtime \<ge> stat)))"

definition scanFile ::
  "fs_env \<Rightarrow> classInfoDb \<Rightarrow> string \<Rightarrow> string \<Rightarrow> int \<Rightarrow> int option \<Rightarrow> call_result" where
  "scanFile env db className libraryName stat outputStat =
     (if isFresh (map_of db className) stat outputStat
      then \<lparr> cr_result = Inr (the (map_of db className)), cr_db = db, cr_events = [] \<rparr>
      else
        (let oldDbClassInfo = map_of db className;
             dbClassInfo = \<lparr> ci_mtime = Some stat, ci_libraryName = libraryName,
                             ci_extends = None, ci_implement = None, ci_include = None,
                             ci_dependsOn = None \<rparr>;
             compiling = CompilingClass className oldDbClassInfo dbClassInfo
         in case fs_load env className of
              Inl err \<Rightarrow>
                \<lparr> cr_result = Inl err,
                  cr_db = AList.update className dbClassInfo db,
                  cr_events = [compiling] \<rparr>
            | Inr (writeDbInfo, meta) \<Rightarrow>
                \<lparr> cr_result = Inr (writeDbInfo dbClassInfo),
                  cr_db = AList.update className (writeDbInfo dbClassInfo) db,
                  cr_events =
                    [compiling,
                     CompiledClass \<lparr> cd_className = className,
                                     cd_oldDbClassInfo = oldDbClassInfo,
                                     cd_dbClassInfo = writeDbInfo dbClassInfo,
                                     cd_meta = meta \<rparr>] \<rparr>))"

definition getClassInfo :: "fs_env \<Rightarrow> classInfoDb \<Rightarrow> string \<Rightarrow> bool \<Rightarrow> call_result" where
  "getClassInfo env db className forceScan =
     (case fs_library env className of
        None \<Rightarrow>
          \<lparr> cr_result = Inl (ENOCLASSFILE (''Cannot find class file '' @ className)),
            cr_db = db, cr_events = [] \<rparr>
      | Some libraryName \<Rightarrow>
          (case fs_sourceStat env className of
             Inl err \<Rightarrow> \<lparr> cr_result = Inl err, cr_db = db, cr_events = [] \<rparr>
           | Inr stat \<Rightarrow>
               if \<not> fs_outputExists env className \<or> forceScan
               then scanFile env db className libraryName stat None
               else if \<not> fs_metaExists env className
               then scanFile env db className libraryName stat None
               else (case fs_outputStat env className of
                       Inl err \<Rightarrow> \<lparr> cr_result = Inl err, cr_db = db, cr_events = [] \<rparr>
                     | Inr outputStat \<Rightarrow>
                         scanFile env db className libraryName stat (Some outputStat))))"

text \<open>The call returned the cached row: nothing was compiled, the database is as before.\<close>

definition returnsCached :: "classInfoDb \<Rightarrow> string \<Rightarrow> call_result \<Rightarrow> bool" where
  "returnsCached db className r =
     (cr_events r = [] \<and> cr_db r = db
      \<and> (case map_of db className of None \<Rightarrow> False | Some info \<Rightarrow> cr_result r = Inr info))"

text \<open>The call dispatched the class to the compiler (\<^verbatim>\<open>compilingClass\<close> was fired).\<close>

definition compiles :: "call_result \<Rightarrow> bool" where
  "compiles r = (case cr_events r of CompilingClass c old new # es \<Rightarrow> True | _ \<Rightarrow> False)"

text \<open>
  The freshness condition in the words of the specification: a row exists whose mtime
  equals the source's, the output file and the meta file exist, and the output file is
  not older than the source.
\<close>

definition specFresh :: "fs_env \<Rightarrow> classInfoDb \<Rightarrow> string \<Rightarrow> bool" where
  "specFresh env db className =
     (fs_library env className \<noteq> None
      \<and> (case fs_sourceStat env className of
            Inl err \<Rightarrow> False
          | Inr stat \<Rightarrow>
              (case map_of db className of
                 None \<Rightarrow> False
               | Some info \<Rightarrow> ci_mtime info = Some stat)
              \<and> fs_outputExists env className
              \<and> fs_metaExists env className
              \<and> (case fs_outputStat env className of
                    Inl err \<Rightarrow> False
                  | Inr outputMtime \<Rightarrow> outputMtime \<ge> stat)))"

text \<open>The source file is found: a library holds the class and \<^verbatim>\<open>fs.stat\<close> succeeds.\<close>

definition sourceFound :: "fs_env \<Rightarrow> string \<Rightarrow> bool" where
  "sourceFound env className =
     (fs_library env className \<noteq> None \<and> \<not> isl (fs_sourceStat env className))"

text \<open>The call reaches \<^verbatim>\<open>fs.stat\<close> of the output file, and that fails.\<close>

definition outputStatFails :: "fs_env \<Rightarrow> string \<Rightarrow> bool \<Rightarrow> bool" where
  "outputStatFails env className forceScan =
     (fs_outputExists env className \<and> \<not> forceScan \<and> fs_metaExists env className
      \<and> isl (fs_outputStat env className))"

subsection \<open>Saving the meta and the merge of a run: \<^verbatim>\<open>analyzeMeta\<close>\<close>

text \<open>\<open>ss_writes\<close> is the trace of the calls of \<^verbatim>\<open>writeFile\<close>, the latest first.\<close>

record save_state =
  ss_metaWrittenLog :: "string set"
  ss_disk :: store
  ss_writes :: "(string \<times> class_meta) list"

definition saveMetaData :: "string \<Rightarrow> class_meta \<Rightarrow> save_state \<Rightarrow> error option \<times> save_state"
  where
  "saveMetaData classname meta ss =
     (if classname \<in> ss_metaWrittenLog ss
      then (Some (WrittenTwice classname), ss)
      else (None,
            \<lparr> ss_metaWrittenLog = insert classname (ss_metaWrittenLog ss),
              ss_disk = (ss_disk ss)(classname \<mapsto> meta),
              ss_writes = (classname, meta) # ss_writes ss \<rparr>))"

text \<open>
  \<^verbatim>\<open>Promise.all(Object.keys(toSave).map(...))\<close>: every call is made, in the order of the
  keys; the errors thrown are collected.
\<close>

fun saveAll :: "class_meta obj \<Rightarrow> save_state \<Rightarrow> error list \<times> save_state" where
  "saveAll [] ss = ([], ss)"
| "saveAll ((classname, meta) # rest) ss =
     (case saveMetaData classname meta ss of
        (err, ss') \<Rightarrow>
          (case saveAll rest ss' of
             (errs, ss'') \<Rightarrow> ((case err of None \<Rightarrow> [] | Some e \<Rightarrow> [e]) @ errs, ss'')))"

definition calcDescendants :: "classInfoDb \<Rightarrow> string \<Rightarrow> class_meta \<Rightarrow> class_meta" where
  "calcDescendants db classname meta =
     meta\<lparr>cm_descendants :=
            Some (map fst (filter (\<lambda>(name, tmp). ci_extends tmp = Some classname) db))\<rparr>"

text \<open>The list that \<open>calcDescendants\<close> stores for a class.\<close>

definition descendantNames :: "classInfoDb \<Rightarrow> string \<Rightarrow> string list" where
  "descendantNames db classname =
     map fst (filter (\<lambda>(name, tmp). ci_extends tmp = Some classname) db)"

text \<open>
  What holds of \<^verbatim>\<open>toSave\<close> throughout \<^verbatim>\<open>analyzeMeta\<close>: one entry per class, each with
  the descendants computed from the database.
\<close>

definition staged :: "classInfoDb \<Rightarrow> class_meta obj \<Rightarrow> bool" where
  "staged db ts =
     (distinct (map fst ts)
      \<and> (\<forall>(c, m)\<in>set ts. cm_descendants m = Some (descendantNames db c)))"

text \<open>The listener on \<^verbatim>\<open>compiledClass\<close> (lines 345 to 370).\<close>

definition noteAncestors :: "dbClassInfo \<Rightarrow> bool obj \<Rightarrow> bool obj" where
  "noteAncestors info fixups =
     (let f1 = (if truthy (ci_extends info)
                then AList.update (the (ci_extends info)) True fixups else fixups);
          f2 = fold (\<lambda>name f. AList.update name True f) (namesOf (ci_implement info)) f1
      in fold (\<lambda>name f. AList.update name True f) (namesOf (ci_include info)) f2)"

definition onCompiledClass ::
  "compiled_data \<Rightarrow> bool obj \<times> compiled_data obj \<Rightarrow> bool obj \<times> compiled_data obj" where
  "onCompiledClass data acc =
     (case acc of (metaFixupDescendants, compiledClasses) \<Rightarrow>
        (noteAncestors (cd_dbClassInfo data)
           (case cd_oldDbClassInfo data of
              None \<Rightarrow> metaFixupDescendants
            | Some old \<Rightarrow> noteAncestors old metaFixupDescendants),
         AList.update (cd_className data) data compiledClasses))"

text \<open>
  \<^verbatim>\<open>metaFixupDescendants\<close> and \<^verbatim>\<open>compiledClasses\<close> after the \<^verbatim>\<open>compiledClass\<close> events of
  a run, in the order in which they were fired.
\<close>

definition listen :: "compiled_data list \<Rightarrow> bool obj \<times> compiled_data obj" where
  "listen evs = fold onCompiledClass evs ([], [])"

text \<open>
  \<^verbatim>\<open>fixupMetaData\<close> hands the JSDoc of every entry to the external parser
  \<^verbatim>\<open>qx.tool.compiler.jsdoc.Parser.parseJsDoc\<close>, a parameter here. The sections of the meta
  that no other function of the merge reads (events, statics, the class's own JSDoc) are
  not part of \<open>class_meta\<close>.
\<close>

definition fixupMetaData ::
  "(jsdoc \<Rightarrow> string \<Rightarrow> jsdoc) \<Rightarrow> string \<Rightarrow> class_meta \<Rightarrow> class_meta" where
  "fixupMetaData parseJsDoc classname meta =
     meta\<lparr> cm_properties :=
              map_option
                (map (\<lambda>(name, p). (name, p\<lparr>pm_jsdoc :=
                                              map_option (\<lambda>j. parseJsDoc j classname)
                                                (pm_jsdoc p)\<rparr>)))
                (cm_properties meta),
            cm_members :=
              map_option
                (map (\<lambda>(name, m). (name, m\<lparr>mm_jsdoc :=
                                              map_option (\<lambda>j. parseJsDoc j classname)
                                                (mm_jsdoc m)\<rparr>)))
                (cm_members meta) \<rparr>"

record meta_state =
  ms_cache :: store
  ms_toSave :: "class_meta obj"
  ms_protoJsdoc :: protoJsdoc

definition stageCompiled ::
  "(jsdoc \<Rightarrow> string \<Rightarrow> jsdoc) \<Rightarrow> compiled_data obj \<Rightarrow> store \<Rightarrow> store" where
  "stageCompiled parseJsDoc compiledClasses cachedMeta =
     fold (\<lambda>(classname, data) c.
             c(classname := map_option (fixupMetaData parseJsDoc classname) (cd_meta data)))
       compiledClasses cachedMeta"

text \<open>
  The loop of lines 827 to 834 over the compiled classes; a throw of \<open>updateMetaData\<close>
  ends it.
\<close>

fun mergeCompiled ::
  "store \<Rightarrow> nat \<Rightarrow> classInfoDb \<Rightarrow> string list \<Rightarrow> meta_state \<Rightarrow> (error + meta_state) option"
  where
  "mergeCompiled disk fuel db [] st = Some (Inr st)"
| "mergeCompiled disk fuel db (classname # cs) st =
     (case ms_cache st classname of
        None \<Rightarrow> mergeCompiled disk fuel db cs st
      | Some meta \<Rightarrow>
          (case updateMetaData disk fuel classname meta (ms_cache st) (ms_protoJsdoc st) of
             None \<Rightarrow> None
           | Some (Inl e) \<Rightarrow> Some (Inl e)
           | Some (Inr (meta', cache', docs')) \<Rightarrow>
               mergeCompiled disk fuel db cs
                 \<lparr> ms_cache = cache'(classname \<mapsto> calcDescendants db classname meta'),
                   ms_toSave = AList.update classname (calcDescendants db classname meta')
                                 (ms_toSave st),
                   ms_protoJsdoc = docs' \<rparr>))"

definition fixupDescendants ::
  "store \<Rightarrow> classInfoDb \<Rightarrow> compiled_data obj \<Rightarrow> string \<Rightarrow> meta_state \<Rightarrow> meta_state" where
  "fixupDescendants disk db compiledClasses classname st =
     (if map_of compiledClasses classname = None \<and> map_of db classname \<noteq> None
      then (case loadMetaData disk classname (ms_cache st) of
              (None, c) \<Rightarrow> st\<lparr>ms_cache := c\<rparr>
            | (Some meta, c) \<Rightarrow>
                st\<lparr> ms_cache := c(classname \<mapsto> calcDescendants db classname meta),
                    ms_toSave := AList.update classname (calcDescendants db classname meta)
                                   (ms_toSave st) \<rparr>)
      else st)"

record run_result =
  rr_errors :: "error list"
  rr_saved :: save_state
  rr_cache :: store

text \<open>
  \<^verbatim>\<open>analyzeMeta\<close>. A throw of the merge rejects the promise before anything is saved:
  the result is the error. Otherwise the result holds the errors of the calls of
  \<open>saveMetaData\<close> and the state they leave.
\<close>

definition analyzeMeta ::
  "(jsdoc \<Rightarrow> string \<Rightarrow> jsdoc) \<Rightarrow> store \<Rightarrow> nat \<Rightarrow> classInfoDb \<Rightarrow> compiled_data obj \<Rightarrow>
   bool obj \<Rightarrow> protoJsdoc \<Rightarrow> (error + run_result) option" where
  "analyzeMeta parseJsDoc disk fuel db compiledClasses metaFixupDescendants docs =
     (case mergeCompiled disk fuel db (keys compiledClasses)
             \<lparr> ms_cache = stageCompiled parseJsDoc compiledClasses Map.empty,
               ms_toSave = [], ms_protoJsdoc = docs \<rparr> of
        None \<Rightarrow> None
      | Some (Inl e) \<Rightarrow> Some (Inl e)
      | Some (Inr st) \<Rightarrow>
          (let st' = fold (fixupDescendants disk db compiledClasses)
                       (keys metaFixupDescendants) st
           in case saveAll (ms_toSave st')
                     \<lparr> ss_metaWrittenLog = {}, ss_disk = disk, ss_writes = [] \<rparr> of
                (errs, ss) \<Rightarrow>
                  Some (Inr \<lparr> rr_errors = errs, rr_saved = ss, rr_cache = ms_cache st' \<rparr>)))"

subsection \<open>The canonical descriptions in the words of the specification\<close>

definition backtick :: string where
  "backtick = [CHR 0x60]"

text \<open>
  The getter's description as section 6 of the specification prints it: the property
  name between backticks.
\<close>

definition specGetterMsg :: "string \<Rightarrow> string" where
  "specGetterMsg propertyName =
     ''Gets the (computed) value of the property '' @ backtick @ propertyName @ backtick
     @ ''.'' @ newline @ newline
     @ ''For further details take a look at the property definition: {@link #''
     @ propertyName @ ''}.''"

text \<open>
  The accessor names that the specification requires for a property: get, set and reset;
  is for a Boolean; the async variants for an async property.
\<close>

definition accessorNames :: "string \<Rightarrow> property_meta \<Rightarrow> string list" where
  "accessorNames propertyName propertyMeta =
     [''get'' @ firstUp propertyName]
     @ (if propertyType propertyMeta = ''Boolean'' then [''is'' @ firstUp propertyName] else [])
     @ [''set'' @ firstUp propertyName, ''reset'' @ firstUp propertyName]
     @ (if pm_async propertyMeta
        then [''get'' @ firstUp propertyName @ ''Async'']
             @ (if propertyType propertyMeta = ''Boolean''
                then [''is'' @ firstUp propertyName @ ''Async''] else [])
             @ [''set'' @ firstUp propertyName @ ''Async'']
        else [])"

text \<open>
  The calls of \<open>addPropertyAccessor\<close> that \<open>addAccessors\<close> makes for one property, in
  their order: method name, accessor kind, return type, value type, description.
\<close>

definition accessorCalls ::
  "string \<Rightarrow> property_meta \<Rightarrow> (string \<times> string \<times> string option \<times> string option \<times> string) list"
  where
  "accessorCalls propertyName propertyMeta =
     (let upname = firstUp propertyName; type = propertyType propertyMeta in
        [(''get'' @ upname, ''get'', Some type, None, getterMsg propertyName)]
        @ (if type = ''Boolean''
           then [(''is'' @ upname, ''is'', Some type, None, getterMsg propertyName)] else [])
        @ [(''set'' @ upname, ''set'', None, Some type, setterMsg propertyName),
           (''reset'' @ upname, ''reset'', None, None, resetMsg propertyName)]
        @ (if pm_async propertyMeta
           then [(''get'' @ upname @ ''Async'', ''getAsync'', Some ''Promise'', None,
                  getterAsyncMsg propertyName)]
                @ (if type = ''Boolean''
                   then [(''is'' @ upname @ ''Async'', ''isAsync'', Some ''Promise'', None,
                          getterAsyncMsg propertyName)]
                   else [])
                @ [(''set'' @ upname @ ''Async'', ''setAsync'', Some ''Promise'', Some type,
                    setterAsyncMsg propertyName)]
           else []))"

text \<open>Three facts about the row of a name in a member table, used for the synthesis.\<close>

definition existsConcrete :: "entity_info obj \<Rightarrow> string \<Rightarrow> bool" where
  "existsConcrete T n = (case map_of T n of None \<Rightarrow> False | Some r \<Rightarrow> \<not> ei_abstract r)"

definition keptOrAccessor :: "entity_info obj \<Rightarrow> entity_info obj \<Rightarrow> string \<Rightarrow> bool" where
  "keptOrAccessor T0 T n =
     (map_of T n = map_of T0 n
      \<or> (case map_of T n of None \<Rightarrow> False | Some r \<Rightarrow> \<not> ei_abstract r \<and> truthy (ei_property r)))"


text \<open>
  \<^verbatim>\<open>meta.members\<close> after the loop of lines 732 to 764 of \<open>writeBack\<close>, before the
  cleaning of lines 765 to 773; \<open>members1\<close> is what the loop of lines 721 to 731 left.
\<close>

definition mergedMembers ::
  "classEntities \<Rightarrow> member_meta obj \<Rightarrow> bool option \<Rightarrow> member_meta obj" where
  "mergedMembers ce members1 abstract =
     fst (fold materializeMember (ce_members ce) (members1, abstract))"

text \<open>The names of the members of a meta.\<close>

definition memberNames :: "class_meta \<Rightarrow> string list" where
  "memberNames meta = (case cm_members meta of None \<Rightarrow> [] | Some ms \<Rightarrow> keys ms)"

definition memberOf :: "class_meta \<Rightarrow> string \<Rightarrow> member_meta option" where
  "memberOf meta memberName =
     (case cm_members meta of None \<Rightarrow> None | Some ms \<Rightarrow> map_of ms memberName)"

text \<open>
  A row that the write-back does not materialize: neither abstract, nor from a mixin,
  nor tagged with a property accessor (an ordinary method of the class or an ancestor).
\<close>

definition plainRow :: "entity_info \<Rightarrow> bool" where
  "plainRow e = (\<not> ei_abstract e \<and> \<not> ei_mixin e \<and> \<not> truthy (ei_property e))"



subsection \<open>Example classes\<close>

definition exClass :: "string \<Rightarrow> string \<Rightarrow> class_meta" where
  "exClass type className =
     \<lparr> cm_type = type, cm_className = className, cm_superClass = NoSuper,
       cm_interfaces = None, cm_mixins = None, cm_properties = None, cm_members = None,
       cm_abstract = None, cm_descendants = None \<rparr>"

definition exProperty :: "string option \<Rightarrow> bool \<Rightarrow> property_meta" where
  "exProperty check async =
     \<lparr> pm_type = Some ''property'', pm_name = None, pm_check = check, pm_async = async,
       pm_refine = False, pm_abstract = None, pm_mixin = None, pm_access = None,
       pm_property = None, pm_appearsIn = None, pm_overriddenFrom = None, pm_jsdoc = None \<rparr>"

definition exMember :: "string \<Rightarrow> member_meta" where
  "exMember type =
     \<lparr> mm_type = type, mm_name = None, mm_abstract = None, mm_mixin = None,
       mm_inherited = None, mm_access = None, mm_property = None, mm_appearsIn = None,
       mm_overriddenFrom = None, mm_jsdoc = None \<rparr>"

definition exRow :: "bool \<Rightarrow> entity_info" where
  "exRow abstract =
     \<lparr> ei_appearsIn = [(''I'', ''interface'')], ei_overriddenFrom = Some ''I'',
       ei_jsdoc = None, ei_abstract = abstract, ei_mixin = False, ei_inherited = True,
       ei_access = ''public'', ei_property = None, ei_interface = abstract \<rparr>"



definition exInfo :: "int \<Rightarrow> dep_flags obj option \<Rightarrow> dbClassInfo" where
  "exInfo mtime deps =
     \<lparr> ci_mtime = Some mtime, ci_libraryName = ''app'', ci_extends = None,
       ci_implement = None, ci_include = None, ci_dependsOn = deps \<rparr>"

definition exEnv :: "error + int \<Rightarrow> fs_env" where
  "exEnv outputStat =
     \<lparr> fs_library = (\<lambda>c. Some ''app''), fs_sourceStat = (\<lambda>c. Inr 5),
       fs_outputExists = (\<lambda>c. True), fs_metaExists = (\<lambda>c. True),
       fs_outputStat = (\<lambda>c. outputStat),
       fs_load = (\<lambda>c. Inr (id, None)) \<rparr>"

text \<open>Scenario S5: \<open>F\<close> load-depends on \<open>G\<close>, \<open>G\<close> construct-depends on \<open>H\<close>.\<close>

definition exS5 :: classInfoDb where
  "exS5 =
     [(''F'', exInfo 1 (Some [(''G'', noFlags\<lparr>df_load := True\<rparr>)])),
      (''G'', exInfo 1 (Some [(''H'', noFlags\<lparr>df_construct := True\<rparr>)])),
      (''H'', exInfo 1 None)]"

text \<open>
  Scenario S1: \<open>B\<close> extends \<open>A\<close>, both declare the member \<open>foo\<close>; \<open>B\<close> was compiled in
  the run, the meta of \<open>A\<close> is on disk.
\<close>

definition exMetaA :: class_meta where
  "exMetaA = (exClass ''class'' ''A'')\<lparr>cm_members := Some [(''foo'', exMember ''function'')]\<rparr>"

definition exMetaB :: class_meta where
  "exMetaB =
     (exClass ''class'' ''B'')\<lparr> cm_superClass := Single ''A'',
                                 cm_members := Some [(''foo'', exMember ''function'')] \<rparr>"

definition exDataB :: compiled_data where
  "exDataB =
     \<lparr> cd_className = ''B'', cd_oldDbClassInfo = None,
       cd_dbClassInfo = (exInfo 1 None)\<lparr>ci_extends := Some ''A''\<rparr>,
       cd_meta = Some exMetaB \<rparr>"

definition exRunDb :: classInfoDb where
  "exRunDb = [(''A'', exInfo 1 None), (''B'', (exInfo 1 None)\<lparr>ci_extends := Some ''A''\<rparr>)]"

definition exDisk :: store where
  "exDisk = Map.empty(''A'' \<mapsto> exMetaA)"

text \<open>No inherited function carries a \<^verbatim>\<open>jsdoc\<close>.\<close>

definition noDocs :: protoJsdoc where
  "noDocs = (\<lambda>name. None)"

definition exParse :: "jsdoc \<Rightarrow> string \<Rightarrow> jsdoc" where
  "exParse j classname = j"


text \<open>
  A class \<open>C\<close> with the property \<open>foo\<close>; an interface \<open>I\<close>, a class \<open>S\<close> and a mixin
  \<open>M\<close> on disk: \<open>I\<close> and \<open>S\<close> declare the method \<open>getFoo\<close>, \<open>M\<close> the property \<open>foo\<close>.
\<close>

definition exFooString :: "property_meta obj" where
  "exFooString = [(''foo'', exProperty (Some ''String'') False)]"

definition exInterfaceI :: class_meta where
  "exInterfaceI =
     (exClass ''interface'' ''I'')\<lparr>cm_members := Some [(''getFoo'', exMember ''function'')]\<rparr>"

definition exSuperS :: class_meta where
  "exSuperS =
     (exClass ''class'' ''S'')\<lparr>cm_members := Some [(''getFoo'', exMember ''function'')]\<rparr>"

definition exMixinM :: class_meta where
  "exMixinM = (exClass ''mixin'' ''M'')\<lparr>cm_properties := Some exFooString\<rparr>"

definition exLibrary :: store where
  "exLibrary = Map.empty(''I'' \<mapsto> exInterfaceI, ''S'' \<mapsto> exSuperS, ''M'' \<mapsto> exMixinM)"

definition exImplementsI :: class_meta where
  "exImplementsI =
     (exClass ''class'' ''C'')\<lparr> cm_properties := Some exFooString,
                                 cm_interfaces := Some [''I''] \<rparr>"

definition exExtendsS :: class_meta where
  "exExtendsS =
     (exClass ''class'' ''C'')\<lparr> cm_properties := Some exFooString,
                                 cm_superClass := Single ''S'' \<rparr>"


definition exPlain :: class_meta where
  "exPlain = (exClass ''class'' ''C'')\<lparr>cm_properties := Some exFooString\<rparr>"

text \<open>
  A class with the method \<open>toString\<close>, and a class that extends it; the meta of the
  first is on disk as \<open>T\<close>.
\<close>

definition exToString :: class_meta where
  "exToString =
     (exClass ''class'' ''T'')\<lparr>cm_members := Some [(''toString'', exMember ''function'')]\<rparr>"

definition exDataT :: compiled_data where
  "exDataT =
     \<lparr> cd_className = ''T'', cd_oldDbClassInfo = None, cd_dbClassInfo = exInfo 1 None,
       cd_meta = Some exToString \<rparr>"

definition exExtendsT :: class_meta where
  "exExtendsT = (exClass ''class'' ''U'')\<lparr>cm_superClass := Single ''T''\<rparr>"

definition exDiskT :: store where
  "exDiskT = Map.empty(''T'' \<mapsto> exToString)"

text \<open>
  The class \<open>F1\<close> load-depends on \<open>X\<close>, a class without a row (its file was not found);
  \<open>F2\<close> load-depends on \<open>G\<close>, which construct-depends on \<open>H\<close>.
\<close>

definition exRowless :: classInfoDb where
  "exRowless =
     [(''F1'', exInfo 1 (Some [(''X'', noFlags\<lparr>df_load := True\<rparr>)])),
      (''F2'', exInfo 1 (Some [(''G'', noFlags\<lparr>df_load := True\<rparr>)])),
      (''G'', exInfo 1 (Some [(''H'', noFlags\<lparr>df_construct := True\<rparr>)])),
      (''H'', exInfo 1 None)]"


section \<open>Properties\<close>

lemma firstUp_foo: "firstUp ''foo'' = ''Foo''"
  by code_simp

subsection \<open>Accessor synthesis leaves concrete rows alone\<close>

lemma lookupKey_Own: "map_of ob k = Some v \<Longrightarrow> lookupKey ob k = Own v"
  by (simp add: lookupKey_def)

lemma lookupKey_plain:
  "k \<notin> set objectPrototypeNames \<Longrightarrow>
   lookupKey ob k = (case map_of ob k of None \<Rightarrow> Absent | Some v \<Rightarrow> Own v)"
  by (simp add: lookupKey_def split: option.splits)

lemma lookupKey_None: "lookupKey ob k \<noteq> Own v \<Longrightarrow> map_of ob k \<noteq> Some v"
  by (auto simp: lookupKey_def)



lemma addPropertyAccessor_other:
  "m \<noteq> n \<Longrightarrow> map_of (addPropertyAccessor first pm n a r v d members) m = map_of members m"
  by (auto simp: addPropertyAccessor_def lookupKey_def update_conv' split: option.splits)





lemma newAccessorInfo_concrete [simp]:
  "\<not> ei_abstract (newAccessorInfo first pm a r v d old)"
  "ei_property (newAccessorInfo first pm a r v d old) = Some a"
  by (simp_all add: newAccessorInfo_def)

lemma addPropertyAccessor_synth:
  "synthesizes members n \<Longrightarrow>
   addPropertyAccessor first pm n a r v d members =
     AList.update n (newAccessorInfo first pm a r v d (map_of members n)) members"
  by (auto simp: addPropertyAccessor_def synthesizes_def lookupKey_def split: option.splits)




subsection \<open>The description of a synthesized getter\<close>

lemma accessorJsdoc_description:
  "map_of (accessorJsdoc pm r v d) ''@description'' = Some [descriptionTag d]"
  by (simp add: accessorJsdoc_def)

lemma getter_row:
  assumes "synthesizes members (''get'' @ firstUp P)"
  shows "map_of (addAccessors first P pm members) (''get'' @ firstUp P) =
           Some (newAccessorInfo first pm ''get'' (Some (propertyType pm)) None (getterMsg P)
                   (map_of members (''get'' @ firstUp P)))"
proof -
  let ?m1 = "addPropertyAccessor first pm (''get'' @ firstUp P) ''get''
               (Some (propertyType pm)) None (getterMsg P) members"
  have "map_of ?m1 (''get'' @ firstUp P) =
          Some (newAccessorInfo first pm ''get'' (Some (propertyType pm)) None (getterMsg P)
                  (map_of members (''get'' @ firstUp P)))"
    using assms by (simp add: addPropertyAccessor_synth update_conv')
  then show ?thesis
    by (auto simp: addAccessors_def addAsyncAccessors_def Let_def addPropertyAccessor_other)
qed

text \<open>
  Claim C7, as amended. Whenever the getter of a property \<open>P\<close> is synthesized (its row
  is absent or abstract when the accessors of \<open>P\<close> are added), the body of the
  description of the row is the text "Gets the (computed) value of the property", the
  property name between the tags \<^verbatim>\<open><code>\<close> and \<^verbatim>\<open></code>\<close>, a full stop, an empty
  line, and the sentence that links to the property definition.
\<close>

theorem getter_description:
  assumes "synthesizes members (''get'' @ firstUp P)"
  shows "\<exists>e j. map_of (addAccessors first P pm members) (''get'' @ firstUp P) = Some e
           \<and> ei_property e = Some ''get'' \<and> ei_jsdoc e = Some j
           \<and> map_option (map tag_body) (map_of j ''@description'') =
               Some [Some (''Gets the (computed) value of the property <code>'' @ P @ ''</code>.''
                           @ [CHR 0x0A, CHR 0x0A]
                           @ ''For further details take a look at the property definition: {@link #''
                           @ P @ ''}.'')]"
  using getter_row [OF assms, of first pm]
  by (simp add: newAccessorInfo_def accessorJsdoc_description descriptionTag_def getterMsg_def
        newline_def)

theorem getter_description_witness:
  "synthesizes [] (''get'' @ firstUp ''foo'')
   \<and> (\<exists>e j. map_of (addAccessors True ''foo'' (exProperty None False) []) ''getFoo'' = Some e
           \<and> ei_property e = Some ''get'' \<and> ei_jsdoc e = Some j
           \<and> map_option (map tag_body) (map_of j ''@description'') =
               Some [Some (''Gets the (computed) value of the property <code>foo</code>.''
                           @ [CHR 0x0A, CHR 0x0A]
                           @ ''For further details take a look at the property definition: {@link #foo}.'')])"
  using getter_description [of "[]" "''foo''" True "exProperty None False"]
  by (simp add: synthesizes_def lookupKey_def objectPrototypeNames_def firstUp_foo)

text \<open>
  The claim as the specification states it fails: for the property \<open>foo\<close> the
  synthesized description is not the text with the name between backticks.
\<close>

theorem getter_description_backticks_counterexample:
  "\<not> (\<exists>e j. map_of (addAccessors True ''foo'' (exProperty None False) []) ''getFoo'' = Some e
           \<and> ei_jsdoc e = Some j
           \<and> map_option (map tag_body) (map_of j ''@description'') =
               Some [Some (specGetterMsg ''foo'')])"
proof -
  have "synthesizes [] (''get'' @ firstUp ''foo'')"
    by (simp add: synthesizes_def lookupKey_def objectPrototypeNames_def firstUp_foo)
  from getter_row [OF this, of True "exProperty None False"]
  show ?thesis
    by (simp add: firstUp_foo newAccessorInfo_def accessorJsdoc_description descriptionTag_def
          getterMsg_def specGetterMsg_def backtick_def newline_def)
qed

subsection \<open>The staleness check\<close>

lemma scanFile_compiles:
  "\<not> isFresh (map_of db c) stat ostat \<Longrightarrow> compiles (scanFile env db c lib stat ostat)"
  by (auto simp: scanFile_def compiles_def Let_def split: sum.splits)

lemma scanFile_not_cached:
  "\<not> isFresh (map_of db c) stat ostat \<Longrightarrow> \<not> returnsCached db c (scanFile env db c lib stat ostat)"
  by (auto simp: scanFile_def returnsCached_def Let_def split: sum.splits)

lemma scanFile_cached:
  "isFresh (map_of db c) stat ostat \<Longrightarrow> returnsCached db c (scanFile env db c lib stat ostat)"
  by (auto simp: scanFile_def returnsCached_def isFresh_def split: option.splits)

lemma returnsCached_error:
  "\<not> returnsCached db c \<lparr> cr_result = Inl e, cr_db = db', cr_events = ev \<rparr>"
  by (simp add: returnsCached_def split: option.splits)

lemma isFresh_None: "\<not> isFresh row stat None"
  by (simp add: isFresh_def split: option.splits)

lemma isFresh_Some:
  "isFresh (map_of db c) stat (Some ostat) =
     ((case map_of db c of None \<Rightarrow> False | Some info \<Rightarrow> ci_mtime info = Some stat)
      \<and> ostat \<ge> stat)"
  by (auto simp: isFresh_def split: option.splits)

lemma returnsCached_scanFile:
  "returnsCached db c (scanFile env db c lib stat ostat) = isFresh (map_of db c) stat ostat"
  using scanFile_cached scanFile_not_cached by blast

lemma getClassInfo_cached_iff:
  "returnsCached db c (getClassInfo env db c force) = (\<not> force \<and> specFresh env db c)"
proof (cases "fs_library env c")
  case None
  then show ?thesis
    by (simp add: getClassInfo_def specFresh_def returnsCached_error)
next
  case (Some lib)
  show ?thesis
  proof (cases "fs_sourceStat env c")
    case (Inl e)
    then show ?thesis using Some
      by (simp add: getClassInfo_def specFresh_def returnsCached_error)
  next
    case (Inr stat)
    show ?thesis
    proof (cases "fs_outputStat env c")
      case (Inl e)
      then show ?thesis using Some Inr
        by (simp add: getClassInfo_def specFresh_def returnsCached_error
              returnsCached_scanFile isFresh_None)
    next
      case oi: (Inr ostat)
      then show ?thesis using Some Inr
        by (auto simp: getClassInfo_def specFresh_def returnsCached_scanFile isFresh_None
              isFresh_Some)
    qed
  qed
qed

lemma getClassInfo_compiles:
  assumes "sourceFound env c" "\<not> (\<not> force \<and> specFresh env db c)"
    "\<not> outputStatFails env c force"
  shows "compiles (getClassInfo env db c force)"
proof -
  obtain lib stat where l: "fs_library env c = Some lib" and s: "fs_sourceStat env c = Inr stat"
    using assms(1) by (cases "fs_sourceStat env c") (auto simp: sourceFound_def)
  have nf: "\<not> isFresh (map_of db c) stat None" by (simp add: isFresh_def split: option.splits)
  show ?thesis
  proof (cases "fs_outputStat env c")
    case (Inl e)
    then show ?thesis using l s assms(3) nf
      by (auto simp: getClassInfo_def outputStatFails_def scanFile_compiles)
  next
    case (Inr ostat)
    have "\<not> force \<Longrightarrow> fs_outputExists env c \<Longrightarrow> fs_metaExists env c \<Longrightarrow>
          \<not> isFresh (map_of db c) stat (Some ostat)"
      using assms(2) l s Inr by (auto simp: specFresh_def isFresh_def split: option.splits)
    then show ?thesis using l s Inr nf
      by (auto simp: getClassInfo_def scanFile_compiles)
  qed
qed

lemma getClassInfo_errors:
  "(fs_library env c = None \<longrightarrow>
      getClassInfo env db c force =
        \<lparr> cr_result = Inl (ENOCLASSFILE (''Cannot find class file '' @ c)), cr_db = db,
          cr_events = [] \<rparr>)
   \<and> (\<forall>e. fs_library env c \<noteq> None \<and> fs_sourceStat env c = Inl e \<longrightarrow>
        getClassInfo env db c force = \<lparr> cr_result = Inl e, cr_db = db, cr_events = [] \<rparr>)
   \<and> (\<forall>e. sourceFound env c \<and> outputStatFails env c force \<and> fs_outputStat env c = Inl e \<longrightarrow>
        getClassInfo env db c force = \<lparr> cr_result = Inl e, cr_db = db, cr_events = [] \<rparr>)"
  by (auto simp: getClassInfo_def sourceFound_def outputStatFails_def split: option.splits sum.splits)


text \<open>
  Claim C3, as amended. \<open>getClassInfo\<close> returns the cached row without compiling if and
  only if \<open>forceScan\<close> is not set and the class is fresh: a row exists whose mtime equals
  the source file's, the output file and the meta file exist, and the output file is
  not older than the source. When the source file is found and the class is not returned
  from the cache, the class is compiled, unless the call reached \<^verbatim>\<open>fs.stat\<close> of the
  output file and that failed. A class that no library holds, a failed stat of the
  source and a failed stat of the output file are errors passed to the callback: nothing
  is compiled and the database is unchanged.
\<close>

theorem getClassInfo_staleness:
  "(returnsCached db c (getClassInfo env db c force) = (\<not> force \<and> specFresh env db c))
   \<and> (sourceFound env c \<and> \<not> (\<not> force \<and> specFresh env db c) \<and> \<not> outputStatFails env c force
        \<longrightarrow> compiles (getClassInfo env db c force))
   \<and> (\<not> sourceFound env c \<or> outputStatFails env c force
        \<longrightarrow> isl (cr_result (getClassInfo env db c force))
            \<and> cr_events (getClassInfo env db c force) = []
            \<and> cr_db (getClassInfo env db c force) = db)"
proof -
  have "\<not> sourceFound env c \<or> outputStatFails env c force
        \<Longrightarrow> isl (cr_result (getClassInfo env db c force))
            \<and> cr_events (getClassInfo env db c force) = []
            \<and> cr_db (getClassInfo env db c force) = db"
    by (auto simp: getClassInfo_def sourceFound_def outputStatFails_def isl_def
          split: option.splits sum.splits)
  then show ?thesis
    using getClassInfo_cached_iff getClassInfo_compiles by blast
qed

theorem getClassInfo_staleness_witness:
  "returnsCached [(''app.A'', exInfo 5 None)] ''app.A''
     (getClassInfo (exEnv (Inr 7)) [(''app.A'', exInfo 5 None)] ''app.A'' False)
   \<and> sourceFound (exEnv (Inr 7)) ''app.A''
   \<and> \<not> specFresh (exEnv (Inr 7)) [(''app.A'', exInfo 4 None)] ''app.A''
   \<and> \<not> outputStatFails (exEnv (Inr 7)) ''app.A'' False
   \<and> compiles (getClassInfo (exEnv (Inr 7)) [(''app.A'', exInfo 4 None)] ''app.A'' False)
   \<and> outputStatFails (exEnv (Inl (IoError ''EACCES''))) ''app.A'' False
   \<and> isl (cr_result (getClassInfo (exEnv (Inl (IoError ''EACCES'')))
                        [(''app.A'', exInfo 5 None)] ''app.A'' False))"
  using getClassInfo_staleness [of "[(''app.A'', exInfo 5 None)]" "''app.A''" "exEnv (Inr 7)" False]
    getClassInfo_staleness [of "[(''app.A'', exInfo 4 None)]" "''app.A''" "exEnv (Inr 7)" False]
    getClassInfo_staleness [of "[(''app.A'', exInfo 5 None)]" "''app.A''"
      "exEnv (Inl (IoError ''EACCES''))" False]
  by (simp add: specFresh_def sourceFound_def outputStatFails_def exEnv_def exInfo_def)

text \<open>
  The claim as stated fails: the source file is found, the class is not fresh (the stat
  of the output file fails), and yet the class is not compiled.
\<close>

theorem stale_not_recompiled_counterexample:
  "\<not> (sourceFound (exEnv (Inl (IoError ''EACCES''))) ''app.A''
        \<and> \<not> (\<not> False \<and> specFresh (exEnv (Inl (IoError ''EACCES'')))
                             [(''app.A'', exInfo 5 None)] ''app.A'')
      \<longrightarrow> compiles (getClassInfo (exEnv (Inl (IoError ''EACCES'')))
                      [(''app.A'', exInfo 5 None)] ''app.A'' False))"
  by (simp add: specFresh_def sourceFound_def exEnv_def exInfo_def getClassInfo_def compiles_def)

subsection \<open>The indirect-load lift\<close>

lemma infoLoad_setLoad: "infoLoad (setLoad d info) e = (e = d \<or> infoLoad info e)"
  by (auto simp: infoLoad_def setLoad_def Let_def update_conv' split: option.splits)

lemma infoConstruct_setLoad: "infoConstruct (setLoad d info) e = infoConstruct info e"
  by (auto simp: infoConstruct_def setLoad_def Let_def update_conv' noFlags_def split: option.splits)

lemma infoLoad_fold: "infoLoad (fold setLoad ds info) e = (e \<in> set ds \<or> infoLoad info e)"
  by (induction ds arbitrary: info) (auto simp: infoLoad_setLoad)

lemma infoConstruct_fold: "infoConstruct (fold setLoad ds info) e = infoConstruct info e"
  by (induction ds arbitrary: info) (auto simp: infoConstruct_setLoad)

lemma constructDep_liftStep: "constructDep (liftStep db c deps) x y = constructDep db x y"
  by (auto simp: liftStep_def constructDep_def update_conv' infoConstruct_fold split: option.splits)

lemma loadDep_liftStep:
  "loadDep (liftStep db c deps) x y =
     (loadDep db x y \<or> (x = c \<and> map_of db c \<noteq> None \<and> y \<in> set deps))"
  by (auto simp: liftStep_def loadDep_def update_conv' infoLoad_fold split: option.splits)

lemma collectConstruct_mem:
  "collectConstruct db names = Inr deps \<Longrightarrow> d \<in> set names \<Longrightarrow> constructDep db d e \<Longrightarrow>
   e \<in> set deps"
proof (induction names arbitrary: deps)
  case Nil then show ?case by simp
next
  case (Cons n ns)
  from Cons.prems(1) obtain xs ys where
    x: "getConstructDependencies db n = Inr xs" and y: "collectConstruct db ns = Inr ys"
    and d: "deps = xs @ ys"
    by (auto split: sum.splits)
  show ?case
  proof (cases "d = n")
    case True
    from Cons.prems(3) True x have "e \<in> set xs"
      by (auto simp: constructDep_def infoConstruct_def getConstructDependencies_def
            split: option.splits dest!: map_of_SomeD) force
    then show ?thesis using d by simp
  next
    case False
    then have "e \<in> set ys" using Cons.IH [OF y] Cons.prems by simp
    then show ?thesis using d by simp
  qed
qed

lemma loadDep_loadTargets: "loadDep db c d \<Longrightarrow> d \<in> set (loadTargets db c)"
  by (auto simp: loadDep_def infoLoad_def loadTargets_def split: option.splits dest!: map_of_SomeD)
     force

lemma getIndirect_loadTargets:
  "getIndirectLoadDependencies db c = collectConstruct db (loadTargets db c)"
  by (simp add: getIndirectLoadDependencies_def loadTargets_def split: option.splits)

lemma liftIndirectLoad_Cons:
  "liftIndirectLoad (c # cs) db =
     (case collectConstruct db (loadTargets db c) of
        Inl e \<Rightarrow> Inl e | Inr deps \<Rightarrow> liftIndirectLoad cs (liftStep db c deps))"
  by (simp add: getIndirect_loadTargets)

lemma liftIndirectLoad_mono:
  "liftIndirectLoad cs db = Inr db' \<Longrightarrow>
   (loadDep db x y \<longrightarrow> loadDep db' x y) \<and> constructDep db' x y = constructDep db x y"
proof (induction cs arbitrary: db)
  case Nil then show ?case by simp
next
  case (Cons c cs)
  from Cons.prems obtain deps where
    d: "collectConstruct db (loadTargets db c) = Inr deps"
    and r: "liftIndirectLoad cs (liftStep db c deps) = Inr db'"
    by (auto simp: liftIndirectLoad_Cons simp del: liftIndirectLoad.simps split: sum.splits)
  from Cons.IH [OF r] show ?case
    by (simp add: constructDep_liftStep loadDep_liftStep)
qed

lemma liftIndirectLoad_lifts:
  "liftIndirectLoad cs db = Inr db' \<Longrightarrow> c \<in> set cs \<Longrightarrow> loadDep db c d \<Longrightarrow>
   constructDep db d e \<Longrightarrow> loadDep db' c e"
proof (induction cs arbitrary: db)
  case Nil then show ?case by simp
next
  case (Cons a cs)
  from Cons.prems(1) obtain deps where
    dd: "collectConstruct db (loadTargets db a) = Inr deps"
    and r: "liftIndirectLoad cs (liftStep db a deps) = Inr db'"
    by (auto simp: liftIndirectLoad_Cons simp del: liftIndirectLoad.simps split: sum.splits)
  show ?case
  proof (cases "c = a")
    case True
    have "e \<in> set deps"
      using collectConstruct_mem [OF dd _ Cons.prems(4)] loadDep_loadTargets Cons.prems(3) True
      by blast
    moreover have "map_of db a \<noteq> None"
      using Cons.prems(3) True by (auto simp: loadDep_def split: option.splits)
    ultimately have "loadDep (liftStep db a deps) c e"
      using True by (simp add: loadDep_liftStep)
    then show ?thesis using liftIndirectLoad_mono [OF r] by blast
  next
    case False
    then have "c \<in> set cs" using Cons.prems(2) by simp
    moreover have "loadDep (liftStep db a deps) c d"
      using Cons.prems(3) by (simp add: loadDep_liftStep)
    moreover have "constructDep (liftStep db a deps) d e"
      using Cons.prems(4) by (simp add: constructDep_liftStep)
    ultimately show ?thesis using Cons.IH [OF r] by blast
  qed
qed

lemma collectConstruct_total:
  "\<forall>d\<in>set names. map_of db d \<noteq> None \<Longrightarrow> \<exists>deps. collectConstruct db names = Inr deps"
  by (induction names) (auto simp: getConstructDependencies_def split: option.splits sum.splits)

lemma liftStep_other: "x \<noteq> c \<Longrightarrow> map_of (liftStep db c deps) x = map_of db x"
  by (auto simp: liftStep_def update_conv' split: option.splits)

lemma liftStep_dom: "(map_of (liftStep db c deps) x \<noteq> None) = (map_of db x \<noteq> None)"
  by (auto simp: liftStep_def update_conv' split: option.splits)

lemma loadTargets_liftStep: "x \<noteq> c \<Longrightarrow> loadTargets (liftStep db c deps) x = loadTargets db x"
  by (simp add: loadTargets_def liftStep_other)

lemma liftIndirectLoad_total:
  "distinct cs \<Longrightarrow> \<forall>c\<in>set cs. \<forall>d\<in>set (loadTargets db c). map_of db d \<noteq> None \<Longrightarrow>
   \<exists>db'. liftIndirectLoad cs db = Inr db'"
proof (induction cs arbitrary: db)
  case Nil then show ?case by simp
next
  case (Cons a cs)
  from Cons.prems(2) obtain deps where dd: "collectConstruct db (loadTargets db a) = Inr deps"
    using collectConstruct_total [of "loadTargets db a" db] by auto
  have "\<forall>c\<in>set cs. \<forall>d\<in>set (loadTargets (liftStep db a deps) c).
          map_of (liftStep db a deps) d \<noteq> None"
  proof (intro ballI)
    fix c d assume c: "c \<in> set cs" and d: "d \<in> set (loadTargets (liftStep db a deps) c)"
    from c Cons.prems(1) have "c \<noteq> a" by auto
    then have "d \<in> set (loadTargets db c)" using d by (simp add: loadTargets_liftStep)
    then have "map_of db d \<noteq> None" using Cons.prems(2) c by simp
    then show "map_of (liftStep db a deps) d \<noteq> None" using liftStep_dom [of db a deps d] by blast
  qed
  then show ?case using Cons.IH [of "liftStep db a deps"] Cons.prems(1) dd
    by (simp add: liftIndirectLoad_Cons del: liftIndirectLoad.simps)
qed

lemma lift_scenario_S5:
  "\<exists>r. liftIndirectLoad [''F'', ''G'', ''H''] exS5 = Inr r \<and> loadDep r ''F'' ''H''"
proof -
  have t: "loadTargets exS5 ''F'' = [''G'']" "loadTargets exS5 ''G'' = []"
    "loadTargets exS5 ''H'' = []"
    by (simp_all add: exS5_def loadTargets_def exInfo_def noFlags_def)
  have "map_of exS5 ''G'' \<noteq> None" by (simp add: exS5_def)
  then have "\<forall>c\<in>set [''F'', ''G'', ''H'']. \<forall>d\<in>set (loadTargets exS5 c). map_of exS5 d \<noteq> None"
    by (simp add: t)
  from liftIndirectLoad_total [OF _ this]
  obtain r where r: "liftIndirectLoad [''F'', ''G'', ''H''] exS5 = Inr r" by auto
  have "loadDep exS5 ''F'' ''G''" "constructDep exS5 ''G'' ''H''"
    by (simp_all add: exS5_def loadDep_def constructDep_def infoLoad_def infoConstruct_def
          exInfo_def noFlags_def)
  from liftIndirectLoad_lifts [OF r _ this] have "loadDep r ''F'' ''H''" by simp
  then show ?thesis using r by blast
qed

text \<open>
  Claim C5 at a closure in which a class load-depends on a class without a row. The
  worklist leaves such a database when the file of a required class is not found (the
  error \<^verbatim>\<open>ENOCLASSFILE\<close> is dropped at lines 423 to 426). \<open>F1\<close> load-depends on \<open>X\<close>,
  which has no row; \<open>F2\<close> load-depends on \<open>G\<close> and \<open>G\<close> construct-depends on \<open>H\<close>.
  \<^verbatim>\<open>getConstructDependencies\<close> reads \<^verbatim>\<open>info.dependsOn\<close> of the missing row and throws, so
  the lift ends at \<open>F1\<close>: \<open>F2\<close> never gets its load dependency on \<open>H\<close>.
\<close>

theorem indirect_load_lift_throws:
  "loadDep exRowless ''F1'' ''X'' \<and> map_of exRowless ''X'' = None
   \<and> loadDep exRowless ''F2'' ''G'' \<and> constructDep exRowless ''G'' ''H''
   \<and> \<not> loadDep exRowless ''F2'' ''H''
   \<and> liftIndirectLoad [''F1'', ''F2'', ''X'', ''G'', ''H''] exRowless = Inl (TypeError ''X'')"
  by (simp add: exRowless_def loadDep_def constructDep_def infoLoad_def infoConstruct_def
        exInfo_def noFlags_def getIndirectLoadDependencies_def getConstructDependencies_def)

subsection \<open>Loops that can throw\<close>

lemma foldE_invariant:
  assumes "foldE f xs s = Inr s'" and "I s"
    and "\<And>x t t'. x \<in> set xs \<Longrightarrow> I t \<Longrightarrow> f x t = Inr t' \<Longrightarrow> I t'"
  shows "I s'"
  using assms
proof (induction xs arbitrary: s)
  case Nil then show ?case by simp
next
  case (Cons x xs)
  then obtain t where t: "f x s = Inr t" and r: "foldE f xs t = Inr s'"
    by (auto split: sum.splits)
  have i: "I t" using Cons.prems(3) [of x s t] Cons.prems(2) t by simp
  have "I u'" if "y \<in> set xs" "I u" "f y u = Inr u'" for y u u'
    using Cons.prems(3) [of y u u'] that by simp
  then show ?case using Cons.IH [OF r i] by blast
qed

lemma foldE_error:
  assumes "foldE f xs s = Inl e"
  shows "\<exists>x t. x \<in> set xs \<and> f x t = Inl e"
  using assms
proof (induction xs arbitrary: s)
  case Nil then show ?case by simp
next
  case (Cons x xs)
  show ?case
  proof (cases "f x s")
    case (Inl e')
    then show ?thesis using Cons.prems by auto
  next
    case (Inr t)
    then have "foldE f xs t = Inl e" using Cons.prems by simp
    from Cons.IH [OF this] show ?thesis by auto
  qed
qed

lemma foldE_completes:
  assumes "\<And>x s. x \<in> set xs \<Longrightarrow> \<exists>s'. f x s = Inr s'"
  shows "\<exists>s'. foldE f xs s = Inr s'"
  using assms
proof (induction xs arbitrary: s)
  case Nil then show ?case by simp
next
  case (Cons x xs)
  from Cons.prems [of x s] obtain t where t: "f x s = Inr t" by auto
  have "\<exists>s'. foldE f xs t = Inr s'" using Cons.IH [of t] Cons.prems by simp
  then show ?case using t by simp
qed

lemma forEachM_invariant:
  assumes "forEachM f xs s = Some (Inr s')" and "I s"
    and "\<And>x t t'. x \<in> set xs \<Longrightarrow> I t \<Longrightarrow> f x t = Some (Inr t') \<Longrightarrow> I t'"
  shows "I s'"
  using assms
proof (induction xs arbitrary: s)
  case Nil then show ?case by simp
next
  case (Cons x xs)
  then obtain t where t: "f x s = Some (Inr t)" and r: "forEachM f xs t = Some (Inr s')"
    by (auto split: option.splits sum.splits)
  have i: "I t" using Cons.prems(3) [of x s t] Cons.prems(2) t by simp
  have "I u'" if "y \<in> set xs" "I u" "f y u = Some (Inr u')" for y u u'
    using Cons.prems(3) [of y u u'] that by simp
  then show ?case using Cons.IH [OF r i] by blast
qed

lemma forEachM_error:
  assumes "forEachM f xs s = Some (Inl e)"
  shows "\<exists>x t. x \<in> set xs \<and> f x t = Some (Inl e)"
  using assms
proof (induction xs arbitrary: s)
  case Nil then show ?case by simp
next
  case (Cons x xs)
  show ?case
  proof (cases "f x s")
    case None then show ?thesis using Cons.prems by simp
  next
    case (Some r)
    show ?thesis
    proof (cases r)
      case (Inl e')
      then show ?thesis using Cons.prems Some by auto
    next
      case (Inr t)
      then have "forEachM f xs t = Some (Inl e)" using Cons.prems Some by simp
      from Cons.IH [OF this] show ?thesis by auto
    qed
  qed
qed

lemma forEachM_total:
  assumes "\<And>x s. x \<in> set xs \<Longrightarrow> I s \<Longrightarrow> \<exists>r. f x s = Some r \<and> (\<forall>s'. r = Inr s' \<longrightarrow> I s')"
    and "I s"
  shows "\<exists>r. forEachM f xs s = Some r \<and> (\<forall>s'. r = Inr s' \<longrightarrow> I s')"
  using assms
proof (induction xs arbitrary: s)
  case Nil then show ?case by simp
next
  case (Cons x xs)
  from Cons.prems(1) [of x s] Cons.prems(2) obtain r where
    r: "f x s = Some r" "\<forall>s'. r = Inr s' \<longrightarrow> I s'" by auto
  show ?case
  proof (cases r)
    case (Inl e) then show ?thesis using r by simp
  next
    case (Inr t)
    then have "I t" using r(2) by simp
    then have "\<exists>r. forEachM f xs t = Some r \<and> (\<forall>s'. r = Inr s' \<longrightarrow> I s')"
      using Cons.IH [of t] Cons.prems(1) by simp
    then show ?thesis using r(1) Inr by simp
  qed
qed

lemma forEachM_completes:
  assumes "\<And>x s. x \<in> set xs \<Longrightarrow> I s \<Longrightarrow> \<exists>s'. f x s = Some (Inr s') \<and> I s'" and "I s"
  shows "\<exists>s'. forEachM f xs s = Some (Inr s') \<and> I s'"
  using assms
proof (induction xs arbitrary: s)
  case Nil then show ?case by simp
next
  case (Cons x xs)
  from Cons.prems(1) [of x s] Cons.prems(2) obtain t where t: "f x s = Some (Inr t)" "I t"
    by auto
  have "\<exists>s'. forEachM f xs t = Some (Inr s') \<and> I s'"
    using Cons.IH [of t] Cons.prems(1) t(2) by simp
  then show ?case using t(1) by simp
qed

lemma forEachM_append:
  "forEachM f (xs @ ys) s =
     (case forEachM f xs s of
        None \<Rightarrow> None
      | Some (Inl e) \<Rightarrow> Some (Inl e)
      | Some (Inr t) \<Rightarrow> forEachM f ys t)"
  by (induction xs arbitrary: s) (auto split: option.splits sum.splits)

lemma walkAncestors_forEachM: "walkAncestors f meta s = forEachM f (ancestorNames meta) s"
  by (simp add: walkAncestors_def ancestorNames_def forEachM_append
        split: option.splits sum.splits)

subsection \<open>One visit of the walk\<close>

lemma recordEntity_first: "\<exists>r. recordEntity t c True n p j acc = Inr r"
  by (cases acc) (simp add: recordEntity_def split: found.splits)

lemma recordEntity_plain:
  "n \<notin> set objectPrototypeNames \<Longrightarrow> \<exists>r. recordEntity t c first n p j acc = Inr r"
  by (cases acc) (simp add: recordEntity_def lookupKey_plain split: option.splits)

lemma recordEntity_error: "recordEntity t c first n p j acc = Inl e \<Longrightarrow> e = TypeError n"
  by (cases acc) (auto simp: recordEntity_def split: found.splits if_splits)


lemma lookupKey_cases:
  "(lookupKey ob k = Absent) = (map_of ob k = None \<and> k \<notin> set objectPrototypeNames)"
  "(lookupKey ob k = Inherited) = (map_of ob k = None \<and> k \<in> set objectPrototypeNames)"
  "(lookupKey ob k = Own v) = (map_of ob k = Some v)"
  by (auto simp: lookupKey_def split: option.splits)

lemma recordEntity_keys:
  assumes "recordEntity t c first k p j (T, d) = Inr (T', d')"
    and "fst ` set T \<inter> set objectPrototypeNames = {}"
  shows "fst ` set T' \<inter> set objectPrototypeNames = {}"
proof (cases "lookupKey T k")
  case Absent
  then have "k \<notin> set objectPrototypeNames" by (simp add: lookupKey_cases)
  moreover have "T' = AList.update k (recordRow t c first p j (newEntityInfo t first k)) T"
    using assms(1) Absent by (simp add: recordEntity_def)
  then have "fst ` set T' = insert k (fst ` set T)" by (simp add: dom_update)
  ultimately show ?thesis using assms(2) by simp
next
  case Inherited
  then have "T' = T" using assms(1) by (auto simp: recordEntity_def split: if_splits)
  then show ?thesis using assms(2) by simp
next
  case (Own e)
  then have "k \<in> fst ` set T"
    by (auto simp: lookupKey_cases dest!: map_of_SomeD intro: rev_image_eqI)
  moreover have "T' = AList.update k (recordRow t c first p j e) T"
    using assms(1) Own by (simp add: recordEntity_def)
  then have "fst ` set T' = insert k (fst ` set T)" by (simp add: dom_update)
  ultimately show ?thesis using assms(2) by (simp add: insert_absorb)
qed

lemma recordMembers_completes:
  assumes "first \<or> plainMethods meta"
  shows "\<exists>r. recordMembers meta first acc = Inr r"
proof (cases "cm_members meta")
  case None then show ?thesis by (simp add: recordMembers_def)
next
  case (Some ms)
  let ?f = "\<lambda>(entityName, entityMeta) s.
              if mm_type entityMeta = ''function''
              then recordEntity (cm_type meta) (cm_className meta) first entityName
                     (mm_property entityMeta) (mm_jsdoc entityMeta) s
              else Inr s"
  have "\<exists>s'. ?f x s = Inr s'" if "x \<in> set ms" for x s
  proof (cases x)
    case (Pair n m)
    show ?thesis
    proof (cases "mm_type m = ''function''")
      case False then show ?thesis using Pair by simp
    next
      case True
      show ?thesis
      proof (cases first)
        case True
        then show ?thesis using Pair recordEntity_first by simp
      next
        case False
        then have "plainMethods meta" using assms by simp
        then have "n \<notin> set objectPrototypeNames"
          using that Pair True Some
          by (auto simp: plainMethods_def methodNames_def list_all_iff)
        then show ?thesis using Pair recordEntity_plain by simp
      qed
    qed
  qed
  from foldE_completes [of ms ?f acc, OF this] show ?thesis
    using Some by (simp add: recordMembers_def)
qed

lemma recordProperties_completes:
  assumes "first \<or> list_all (\<lambda>n. n \<notin> set objectPrototypeNames) (propertyNames meta)"
  shows "\<exists>r. recordProperties meta first acc = Inr r"
proof (cases "cm_properties meta")
  case None then show ?thesis by (simp add: recordProperties_def)
next
  case (Some ps)
  let ?f = "\<lambda>(entityName, entityMeta) s.
              recordEntity (cm_type meta) (cm_className meta) first entityName
                (pm_property entityMeta) (pm_jsdoc entityMeta) s"
  have "\<exists>s'. ?f x s = Inr s'" if "x \<in> set ps" for x s
  proof (cases x)
    case (Pair n m)
    show ?thesis
    proof (cases first)
      case True
      then show ?thesis using Pair recordEntity_first by simp
    next
      case False
      then have "n \<notin> set objectPrototypeNames"
        using assms that Pair Some
        by (auto simp: propertyNames_def keys_def list_all_iff)
      then show ?thesis using Pair recordEntity_plain by simp
    qed
  qed
  from foldE_completes [of ps ?f acc, OF this] show ?thesis
    using Some by (simp add: recordProperties_def)
qed

lemma recordEntities_completes:
  assumes "first \<or> plainNames meta"
  shows "\<exists>r. recordEntities meta first acc = Inr r"
proof -
  obtain ce docs where acc: "acc = (ce, docs)" by (cases acc)
  have m: "first \<or> plainMethods meta" using assms by (auto simp: plainNames_def)
  have p: "first \<or> list_all (\<lambda>n. n \<notin> set objectPrototypeNames) (propertyNames meta)"
    using assms by (auto simp: plainNames_def)
  from recordMembers_completes [OF m, of "(ce_members ce, docs)"]
  obtain ms d1 where a: "recordMembers meta first (ce_members ce, docs) = Inr (ms, d1)" by auto
  from recordProperties_completes [OF p, of "(ce_properties ce, d1)"]
  obtain ps d2 where b: "recordProperties meta first (ce_properties ce, d1) = Inr (ps, d2)"
    by auto
  show ?thesis using acc a b by (simp add: recordEntities_def)
qed

lemma recordVisit_completes:
  "first \<or> plainNames meta \<Longrightarrow> \<exists>s'. recordVisit meta first s = Inr s'"
  using recordEntities_completes [of first meta "(ws_entities s, ws_protoJsdoc s)"]
  by (auto simp: recordVisit_def)

lemma recordVisit_cache: "recordVisit meta first s = Inr s' \<Longrightarrow> ws_cache s' = ws_cache s"
  by (auto simp: recordVisit_def split: sum.splits)

lemma recordMembers_error:
  assumes "recordMembers meta first acc = Inl e"
  shows "\<exists>n. e = TypeError n"
proof (cases "cm_members meta")
  case None then show ?thesis using assms by (simp add: recordMembers_def)
next
  case (Some ms)
  let ?f = "\<lambda>(entityName, entityMeta) s.
              if mm_type entityMeta = ''function''
              then recordEntity (cm_type meta) (cm_className meta) first entityName
                     (mm_property entityMeta) (mm_jsdoc entityMeta) s
              else Inr s"
  have "foldE ?f ms acc = Inl e" using assms Some by (simp add: recordMembers_def)
  from foldE_error [OF this] obtain x t where x: "x \<in> set ms" "?f x t = Inl e" by blast
  show ?thesis using x(2) by (cases x) (auto split: if_splits dest: recordEntity_error)
qed

lemma recordProperties_error:
  assumes "recordProperties meta first acc = Inl e"
  shows "\<exists>n. e = TypeError n"
proof (cases "cm_properties meta")
  case None then show ?thesis using assms by (simp add: recordProperties_def)
next
  case (Some ps)
  let ?f = "\<lambda>(entityName, entityMeta) s.
              recordEntity (cm_type meta) (cm_className meta) first entityName
                (pm_property entityMeta) (pm_jsdoc entityMeta) s"
  have "foldE ?f ps acc = Inl e" using assms Some by (simp add: recordProperties_def)
  from foldE_error [OF this] obtain x t where x: "x \<in> set ps" "?f x t = Inl e" by blast
  show ?thesis using x(2) by (cases x) (auto dest: recordEntity_error)
qed

lemma recordVisit_error: "recordVisit meta first s = Inl e \<Longrightarrow> \<exists>n. e = TypeError n"
  by (auto simp: recordVisit_def recordEntities_def split: sum.splits prod.splits
        dest: recordMembers_error recordProperties_error)

lemma recordMembers_keys:
  assumes "recordMembers meta first (T, d) = Inr (T', d')"
    and "fst ` set T \<inter> set objectPrototypeNames = {}"
  shows "fst ` set T' \<inter> set objectPrototypeNames = {}"
proof (cases "cm_members meta")
  case None then show ?thesis using assms by (simp add: recordMembers_def)
next
  case (Some ms)
  let ?f = "\<lambda>(entityName, entityMeta) s.
              if mm_type entityMeta = ''function''
              then recordEntity (cm_type meta) (cm_className meta) first entityName
                     (mm_property entityMeta) (mm_jsdoc entityMeta) s
              else Inr s"
  let ?I = "\<lambda>s. fst ` set (fst s) \<inter> set objectPrototypeNames = {}"
  have f: "foldE ?f ms (T, d) = Inr (T', d')" using assms(1) Some by (simp add: recordMembers_def)
  have "?I t'" if "x \<in> set ms" "?I t" "?f x t = Inr t'" for x t t'
  proof (cases x)
    case (Pair k m)
    show ?thesis
    proof (cases "mm_type m = ''function''")
      case False then show ?thesis using that Pair by simp
    next
      case True
      then have "recordEntity (cm_type meta) (cm_className meta) first k (mm_property m)
                   (mm_jsdoc m) (fst t, snd t) = Inr (fst t', snd t')"
        using that(3) Pair by simp
      from recordEntity_keys [OF this that(2)] show ?thesis .
    qed
  qed
  from foldE_invariant [OF f, of ?I, OF _ this] show ?thesis using assms(2) by simp
qed

lemma recordProperties_keys:
  assumes "recordProperties meta first (T, d) = Inr (T', d')"
    and "fst ` set T \<inter> set objectPrototypeNames = {}"
  shows "fst ` set T' \<inter> set objectPrototypeNames = {}"
proof (cases "cm_properties meta")
  case None then show ?thesis using assms by (simp add: recordProperties_def)
next
  case (Some ps)
  let ?f = "\<lambda>(entityName, entityMeta) s.
              recordEntity (cm_type meta) (cm_className meta) first entityName
                (pm_property entityMeta) (pm_jsdoc entityMeta) s"
  let ?I = "\<lambda>s. fst ` set (fst s) \<inter> set objectPrototypeNames = {}"
  have f: "foldE ?f ps (T, d) = Inr (T', d')"
    using assms(1) Some by (simp add: recordProperties_def)
  have "?I t'" if "x \<in> set ps" "?I t" "?f x t = Inr t'" for x t t'
  proof (cases x)
    case (Pair k m)
    then have "recordEntity (cm_type meta) (cm_className meta) first k (pm_property m)
                 (pm_jsdoc m) (fst t, snd t) = Inr (fst t', snd t')"
      using that(3) by simp
    from recordEntity_keys [OF this that(2)] show ?thesis .
  qed
  from foldE_invariant [OF f, of ?I, OF _ this] show ?thesis using assms(2) by simp
qed


subsection \<open>The rows that the synthesis leaves\<close>

lemma keys_update: "fst ` set (AList.update k v al) = insert k (fst ` set al)"
  by (simp add: dom_update)

lemma addPropertyAccessor_concrete_at:
  "n \<notin> set objectPrototypeNames \<Longrightarrow>
   existsConcrete (addPropertyAccessor first pm n a r v d T) n"
  by (auto simp: existsConcrete_def addPropertyAccessor_def lookupKey_def update_conv'
        split: option.splits)

lemma addPropertyAccessor_existsConcrete:
  "existsConcrete T n \<Longrightarrow> existsConcrete (addPropertyAccessor first pm m a r v d T) n"
  by (cases "m = n")
     (auto simp: existsConcrete_def addPropertyAccessor_def lookupKey_def update_conv'
        split: option.splits)

lemma addPropertyAccessor_keptOrAccessor:
  "a \<noteq> [] \<Longrightarrow> keptOrAccessor T0 T n \<Longrightarrow>
   keptOrAccessor T0 (addPropertyAccessor first pm m a r v d T) n"
  by (cases "m = n")
     (auto simp: keptOrAccessor_def addPropertyAccessor_def lookupKey_def update_conv'
        truthy_def split: option.splits)


lemma addPropertyAccessor_keys:
  "fst ` set (addPropertyAccessor first pm m a r v d T) \<subseteq> insert m (fst ` set T)"
  by (auto simp: addPropertyAccessor_def lookupKey_def keys_update split: option.splits)

lemma addAccessors_calls:
  "addAccessors first P pm T =
     fold (\<lambda>(n, a, r, v, d). addPropertyAccessor first pm n a r v d) (accessorCalls P pm) T"
  by (simp add: addAccessors_def addAsyncAccessors_def accessorCalls_def Let_def)

lemma accessorCalls_names: "map fst (accessorCalls P pm) = accessorNames P pm"
  by (simp add: accessorCalls_def accessorNames_def Let_def)

lemma accessorCalls_kinds: "(n, a, r, v, d) \<in> set (accessorCalls P pm) \<Longrightarrow> a \<noteq> []"
  by (auto simp: accessorCalls_def Let_def split: if_splits)


lemma calls_existsConcrete:
  "existsConcrete T n \<Longrightarrow>
   existsConcrete (fold (\<lambda>(n, a, r, v, d). addPropertyAccessor first pm n a r v d) cs T) n"
  by (induction cs arbitrary: T) (auto simp: addPropertyAccessor_existsConcrete)

lemma calls_names:
  "n \<notin> set objectPrototypeNames \<Longrightarrow> n \<in> fst ` set cs \<Longrightarrow>
   existsConcrete (fold (\<lambda>(n, a, r, v, d). addPropertyAccessor first pm n a r v d) cs T) n"
proof (induction cs arbitrary: T)
  case Nil then show ?case by simp
next
  case (Cons c cs)
  obtain m a r v d where c: "c = (m, a, r, v, d)" by (cases c)
  show ?case
  proof (cases "n = m")
    case True
    then show ?thesis
      using c calls_existsConcrete [OF addPropertyAccessor_concrete_at [OF Cons.prems(1)]]
      by simp
  next
    case False
    then show ?thesis using Cons c by auto
  qed
qed

lemma calls_keptOrAccessor:
  "\<forall>(n, a, r, v, d)\<in>set cs. a \<noteq> [] \<Longrightarrow> keptOrAccessor T0 T n \<Longrightarrow>
   keptOrAccessor T0 (fold (\<lambda>(n, a, r, v, d). addPropertyAccessor first pm n a r v d) cs T) n"
  by (induction cs arbitrary: T) (auto simp: addPropertyAccessor_keptOrAccessor)


lemma calls_keys:
  "fst ` set (fold (\<lambda>(n, a, r, v, d). addPropertyAccessor first pm n a r v d) cs T)
     \<subseteq> fst ` set cs \<union> fst ` set T"
proof (induction cs arbitrary: T)
  case Nil then show ?case by simp
next
  case (Cons c cs)
  obtain m a r v d where c: "c = (m, a, r, v, d)" by (cases c)
  have "fst ` set (addPropertyAccessor first pm m a r v d T) \<subseteq> insert m (fst ` set T)"
    by (rule addPropertyAccessor_keys)
  with Cons.IH [of "addPropertyAccessor first pm m a r v d T"] show ?case
    using c by auto
qed

lemma accessorCalls_nonempty: "\<forall>(n, a, r, v, d)\<in>set (accessorCalls P pm). a \<noteq> []"
  using accessorCalls_kinds by blast

lemma addAccessors_existsConcrete:
  "existsConcrete T n \<Longrightarrow> existsConcrete (addAccessors first P pm T) n"
  by (simp add: addAccessors_calls calls_existsConcrete)

lemma addAccessors_names:
  "n \<notin> set objectPrototypeNames \<Longrightarrow> n \<in> set (accessorNames P pm) \<Longrightarrow>
   existsConcrete (addAccessors first P pm T) n"
  using calls_names [of n "accessorCalls P pm" first pm T] accessorCalls_names [of P pm]
  by (simp add: addAccessors_calls) (metis list.set_map)

lemma addAccessors_keptOrAccessor:
  "keptOrAccessor T0 T n \<Longrightarrow> keptOrAccessor T0 (addAccessors first P pm T) n"
  by (simp add: addAccessors_calls calls_keptOrAccessor accessorCalls_nonempty)


lemma addAccessors_keys:
  "fst ` set (addAccessors first P pm T) \<subseteq> set (accessorNames P pm) \<union> fst ` set T"
  using calls_keys [of first pm "accessorCalls P pm" T] accessorCalls_names [of P pm]
  by (simp add: addAccessors_calls) (metis list.set_map)

lemma synth_existsConcrete:
  "existsConcrete T n \<Longrightarrow>
   existsConcrete (fold (\<lambda>(P, pm) m. addAccessors first P pm m) ps T) n"
  by (induction ps arbitrary: T) (auto simp: addAccessors_existsConcrete)

lemma synth_names:
  "n \<notin> set objectPrototypeNames \<Longrightarrow> (P, pm) \<in> set ps \<Longrightarrow> n \<in> set (accessorNames P pm) \<Longrightarrow>
   existsConcrete (fold (\<lambda>(P, pm) m. addAccessors first P pm m) ps T) n"
proof (induction ps arbitrary: T)
  case Nil then show ?case by simp
next
  case (Cons p ps)
  show ?case
  proof (cases "p = (P, pm)")
    case True
    then show ?thesis
      using synth_existsConcrete [OF addAccessors_names [OF Cons.prems(1,3)]] by simp
  next
    case False
    then show ?thesis using Cons by auto
  qed
qed

lemma synth_keptOrAccessor:
  "keptOrAccessor T0 T n \<Longrightarrow>
   keptOrAccessor T0 (fold (\<lambda>(P, pm) m. addAccessors first P pm m) ps T) n"
  by (induction ps arbitrary: T) (auto simp: addAccessors_keptOrAccessor)


lemma synth_keys:
  "fst ` set (fold (\<lambda>(P, pm) m. addAccessors first P pm m) ps T)
     \<subseteq> (\<Union>(P, pm)\<in>set ps. set (accessorNames P pm)) \<union> fst ` set T"
proof (induction ps arbitrary: T)
  case Nil then show ?case by simp
next
  case (Cons p ps)
  obtain P pm where p: "p = (P, pm)" by (cases p)
  have "fst ` set (addAccessors first P pm T) \<subseteq> set (accessorNames P pm) \<union> fst ` set T"
    by (rule addAccessors_keys)
  with Cons.IH [of "addAccessors first P pm T"] show ?case using p by auto
qed

lemma addPropertyAccessor_plain_keys:
  assumes "fst ` set T \<inter> set objectPrototypeNames = {}"
  shows "fst ` set (addPropertyAccessor first pm m a r v d T) \<inter> set objectPrototypeNames = {}"
proof (cases "m \<in> set objectPrototypeNames")
  case True
  then have "lookupKey T m = Inherited"
    using assms by (auto simp: lookupKey_def map_of_eq_None_iff split: option.splits)
  then show ?thesis using assms by (simp add: addPropertyAccessor_def)
next
  case False
  then show ?thesis using assms addPropertyAccessor_keys [of first pm m a r v d T] by blast
qed

lemma calls_plain_keys:
  "fst ` set T \<inter> set objectPrototypeNames = {} \<Longrightarrow>
   fst ` set (fold (\<lambda>(n, a, r, v, d). addPropertyAccessor first pm n a r v d) cs T)
     \<inter> set objectPrototypeNames = {}"
proof (induction cs arbitrary: T)
  case Nil then show ?case by simp
next
  case (Cons c cs)
  obtain m a r v d where c: "c = (m, a, r, v, d)" by (cases c)
  from Cons.IH [OF addPropertyAccessor_plain_keys [OF Cons.prems, of first pm m a r v d]]
  show ?case using c by simp
qed

lemma synth_plain_keys:
  "fst ` set T \<inter> set objectPrototypeNames = {} \<Longrightarrow>
   fst ` set (fold (\<lambda>(P, pm) m. addAccessors first P pm m) ps T) \<inter> set objectPrototypeNames = {}"
proof (induction ps arbitrary: T)
  case Nil then show ?case by simp
next
  case (Cons p ps)
  obtain P pm where p: "p = (P, pm)" by (cases p)
  have "fst ` set (addAccessors first P pm T) \<inter> set objectPrototypeNames = {}"
    using calls_plain_keys [OF Cons.prems] by (simp add: addAccessors_calls)
  from Cons.IH [OF this] show ?case using p by simp
qed

lemma synthesizeAccessors_keys_plain:
  "fst ` set (ce_members ce) \<inter> set objectPrototypeNames = {} \<Longrightarrow>
   fst ` set (ce_members (synthesizeAccessors meta first ce)) \<inter> set objectPrototypeNames = {}"
  by (auto simp: synthesizeAccessors_def synth_plain_keys split: option.splits)

subsection \<open>Invariants of the walk\<close>

lemma extendsFromDisk_refl: "extendsFromDisk disk ws ws"
  by (simp add: extendsFromDisk_def)

lemma extendsFromDisk_trans:
  "extendsFromDisk disk a b \<Longrightarrow> extendsFromDisk disk b c \<Longrightarrow> extendsFromDisk disk a c"
  unfolding extendsFromDisk_def by metis

lemma loadMetaData_extends: "extendsFromDisk disk ws (snd (loadMetaData disk c ws))"
  by (auto simp: extendsFromDisk_def loadMetaData_def split: option.splits)

lemma extendsFromDisk_lookup:
  "extendsFromDisk disk ws ws' \<Longrightarrow> lookupMeta disk ws' = lookupMeta disk ws"
proof (rule ext)
  fix x assume e: "extendsFromDisk disk ws ws'"
  then have "ws' x = ws x \<or> (ws x = None \<and> ws' x = disk x)" by (simp add: extendsFromDisk_def)
  then show "lookupMeta disk ws' x = lookupMeta disk ws x"
    by (auto simp: lookupMeta_def loadMetaData_def split: option.splits)
qed


lemma lookupMeta_loadMetaData:
  "lookupMeta disk (snd (loadMetaData disk c ws)) = lookupMeta disk ws"
  using loadMetaData_extends extendsFromDisk_lookup by blast

lemma recordVisit_keys:
  assumes "recordVisit meta first s = Inr s'"
    and "fst ` set (ce_members (ws_entities s)) \<inter> set objectPrototypeNames = {}"
    and "fst ` set (ce_properties (ws_entities s)) \<inter> set objectPrototypeNames = {}"
  shows "fst ` set (ce_members (ws_entities s')) \<inter> set objectPrototypeNames = {}
       \<and> fst ` set (ce_properties (ws_entities s')) \<inter> set objectPrototypeNames = {}"
proof -
  from assms(1) obtain ms d1 ps d2 where
    a: "recordMembers meta first (ce_members (ws_entities s), ws_protoJsdoc s) = Inr (ms, d1)"
    and b: "recordProperties meta first (ce_properties (ws_entities s), d1) = Inr (ps, d2)"
    and c: "ws_entities s' = \<lparr> ce_members = ms, ce_properties = ps \<rparr>"
    by (auto simp: recordVisit_def recordEntities_def split: sum.splits prod.splits)
  show ?thesis
    using recordMembers_keys [OF a assms(2)] recordProperties_keys [OF b assms(3)] c by simp
qed


lemma analyseClassEntities_invariant:
  assumes rec: "\<And>meta first s s'. V meta \<Longrightarrow> I s \<Longrightarrow> recordVisit meta first s = Inr s' \<Longrightarrow> I s'"
    and load: "\<And>x s. I s \<Longrightarrow> I (s\<lparr>ws_cache := snd (loadMetaData disk x (ws_cache s))\<rparr>)"
    and syn: "\<And>meta first s. V meta \<Longrightarrow> I s \<Longrightarrow>
                I (s\<lparr>ws_entities := synthesizeAccessors meta first (ws_entities s)\<rparr>)"
    and vis: "\<And>meta x s mm. V meta \<Longrightarrow> I s \<Longrightarrow> x \<in> set (ancestorNames meta) \<Longrightarrow>
                fst (loadMetaData disk x (ws_cache s)) = Some mm \<Longrightarrow> V mm"
  shows "analyseClassEntities disk k m first st = Some (Inr st') \<Longrightarrow>
         (\<forall>meta. m = Some meta \<longrightarrow> V meta) \<Longrightarrow> I st \<Longrightarrow> I st'"
proof (induction k arbitrary: m first st st')
  case 0 then show ?case by simp
next
  case (Suc k)
  show ?case
  proof (cases m)
    case None then show ?thesis using Suc.prems by simp
  next
    case (Some meta)
    then have v: "V meta" using Suc.prems(2) by simp
    let ?visit = "\<lambda>name s. case loadMetaData disk name (ws_cache s) of
                    (m, c) \<Rightarrow> analyseClassEntities disk k m False (s\<lparr>ws_cache := c\<rparr>)"
    from Suc.prems(1) Some obtain st1 st4 where
      r: "recordVisit meta first st = Inr st1"
      and a: "walkAncestors ?visit meta st1 = Some (Inr st4)"
      and d: "st' = st4\<lparr>ws_entities := synthesizeAccessors meta first (ws_entities st4)\<rparr>"
      by (auto split: option.splits sum.splits)
    have i1: "I st1" using rec [OF v Suc.prems(3) r] .
    have step: "I t'" if x: "x \<in> set (ancestorNames meta)" and i: "I t"
      and w: "?visit x t = Some (Inr t')" for x t t'
    proof -
      obtain mm cc where l: "loadMetaData disk x (ws_cache t) = (mm, cc)"
        by (cases "loadMetaData disk x (ws_cache t)")
      have c: "I (t\<lparr>ws_cache := cc\<rparr>)" using load [OF i, of x] l by simp
      have vm: "\<forall>meta. mm = Some meta \<longrightarrow> V meta" using vis [OF v i x] l by simp
      have "analyseClassEntities disk k mm False (t\<lparr>ws_cache := cc\<rparr>) = Some (Inr t')"
        using w l by simp
      from Suc.IH [OF this vm c] show ?thesis .
    qed
    have f: "forEachM ?visit (ancestorNames meta) st1 = Some (Inr st4)"
      using a by (simp add: walkAncestors_forEachM)
    have "I st4" using forEachM_invariant [OF f, of I] i1 step by blast
    then show ?thesis using d syn [OF v] by simp
  qed
qed

lemma analyseClassEntities_extends:
  assumes "analyseClassEntities disk k m first st = Some (Inr st')"
  shows "extendsFromDisk disk (ws_cache st) (ws_cache st')"
proof -
  let ?I = "\<lambda>s. extendsFromDisk disk (ws_cache st) (ws_cache s)"
  have "?I st'"
  proof (rule analyseClassEntities_invariant [of "\<lambda>meta. True" ?I disk, OF _ _ _ _ assms])
    show "?I s'" if "?I s" "recordVisit meta first s = Inr s'" for meta first s s'
      using that recordVisit_cache by simp
    show "?I (s\<lparr>ws_cache := snd (loadMetaData disk x (ws_cache s))\<rparr>)" if "?I s" for x s
    proof -
      have "extendsFromDisk disk (ws_cache st) (snd (loadMetaData disk x (ws_cache s)))"
        using that loadMetaData_extends [of disk "ws_cache s" x] extendsFromDisk_trans by blast
      then show ?thesis by simp
    qed
    show "?I (s\<lparr>ws_entities := synthesizeAccessors meta first (ws_entities s)\<rparr>)"
      if "?I s" for meta first s
      using that by simp
    show "?I st" by (simp add: extendsFromDisk_refl)
  qed simp_all
  then show ?thesis .
qed

lemma analyseClassEntities_lookup:
  "analyseClassEntities disk k m first st = Some (Inr st') \<Longrightarrow>
   lookupMeta disk (ws_cache st') = lookupMeta disk (ws_cache st)"
  using analyseClassEntities_extends extendsFromDisk_lookup by blast

lemma synthesizeAccessors_properties:
  "ce_properties (synthesizeAccessors meta first ce) = ce_properties ce"
  by (simp add: synthesizeAccessors_def split: option.splits)

subsection \<open>The walk ends on a bounded hierarchy\<close>

lemma visit_lookup:
  assumes "loadMetaData disk x (ws_cache s) = (mm, cc)" and "lookupMeta disk (ws_cache s) = L"
  shows "mm = L x" and "lookupMeta disk cc = L"
proof -
  show "mm = L x" using assms by (auto simp: lookupMeta_def)
  show "lookupMeta disk cc = L"
    using lookupMeta_loadMetaData [of disk x "ws_cache s"] assms by simp
qed

lemma analyseClassEntities_returns:
  "boundedAncestry (lookupMeta disk (ws_cache st)) k m \<Longrightarrow>
   \<exists>r. analyseClassEntities disk k m first st = Some r"
proof (induction k arbitrary: m first st)
  case 0 then show ?case by simp
next
  case (Suc k)
  show ?case
  proof (cases m)
    case None then show ?thesis by simp
  next
    case (Some meta)
    let ?L = "lookupMeta disk (ws_cache st)"
    let ?visit = "\<lambda>name s. case loadMetaData disk name (ws_cache s) of
                    (m, c) \<Rightarrow> analyseClassEntities disk k m False (s\<lparr>ws_cache := c\<rparr>)"
    let ?I = "\<lambda>s. lookupMeta disk (ws_cache s) = ?L"
    have b: "\<And>c. c \<in> set (ancestorNames meta) \<Longrightarrow> boundedAncestry ?L k (?L c)"
      using Suc.prems Some by (simp add: list_all_iff)
    show ?thesis
    proof (cases "recordVisit meta first st")
      case (Inl e) then show ?thesis using Some by simp
    next
      case (Inr st1)
      have i1: "?I st1" using recordVisit_cache [OF Inr] by simp
      have step: "\<exists>r. ?visit x s = Some r \<and> (\<forall>s'. r = Inr s' \<longrightarrow> ?I s')"
        if x: "x \<in> set (ancestorNames meta)" and i: "?I s" for x s
      proof -
        obtain mm cc where l: "loadMetaData disk x (ws_cache s) = (mm, cc)"
          by (cases "loadMetaData disk x (ws_cache s)")
        note v = visit_lookup [OF l i]
        have "boundedAncestry (lookupMeta disk (ws_cache (s\<lparr>ws_cache := cc\<rparr>))) k mm"
          using b [OF x] v by simp
        from Suc.IH [OF this, of False] obtain r where
          r: "analyseClassEntities disk k mm False (s\<lparr>ws_cache := cc\<rparr>) = Some r" by blast
        have "?I s'" if "r = Inr s'" for s'
          using analyseClassEntities_lookup [of disk k mm False "s\<lparr>ws_cache := cc\<rparr>" s'] r that v
          by simp
        then show ?thesis using l r by simp
      qed
      from forEachM_total [of "ancestorNames meta" ?I ?visit st1, OF step i1]
      obtain r where "walkAncestors ?visit meta st1 = Some r"
        by (auto simp: walkAncestors_forEachM)
      then show ?thesis using Some Inr by (cases r) simp_all
    qed
  qed
qed

lemma analyseClassEntities_completes:
  assumes plain: "\<forall>c mm. L c = Some mm \<longrightarrow> plainNames mm"
  shows "boundedAncestry L k m \<Longrightarrow> lookupMeta disk (ws_cache st) = L \<Longrightarrow>
         (\<forall>meta. m = Some meta \<longrightarrow> first \<or> plainNames meta) \<Longrightarrow>
         \<exists>st'. analyseClassEntities disk k m first st = Some (Inr st')"
proof (induction k arbitrary: m first st)
  case 0 then show ?case by simp
next
  case (Suc k)
  show ?case
  proof (cases m)
    case None then show ?thesis by simp
  next
    case (Some meta)
    let ?visit = "\<lambda>name s. case loadMetaData disk name (ws_cache s) of
                    (m, c) \<Rightarrow> analyseClassEntities disk k m False (s\<lparr>ws_cache := c\<rparr>)"
    let ?I = "\<lambda>s. lookupMeta disk (ws_cache s) = L"
    have b: "\<And>c. c \<in> set (ancestorNames meta) \<Longrightarrow> boundedAncestry L k (L c)"
      using Suc.prems(1) Some by (simp add: list_all_iff)
    from recordVisit_completes [of first meta st] Suc.prems(3) Some
    obtain st1 where r: "recordVisit meta first st = Inr st1" by auto
    have i1: "?I st1" using recordVisit_cache [OF r] Suc.prems(2) by simp
    have step: "\<exists>s'. ?visit x s = Some (Inr s') \<and> ?I s'"
      if x: "x \<in> set (ancestorNames meta)" and i: "?I s" for x s
    proof -
      obtain mm cc where l: "loadMetaData disk x (ws_cache s) = (mm, cc)"
        by (cases "loadMetaData disk x (ws_cache s)")
      note v = visit_lookup [OF l i]
      have c: "lookupMeta disk (ws_cache (s\<lparr>ws_cache := cc\<rparr>)) = L" using v by simp
      have p: "\<forall>meta. mm = Some meta \<longrightarrow> False \<or> plainNames meta" using plain v(1) by simp
      have "boundedAncestry L k mm" using b [OF x] v by simp
      from Suc.IH [OF this c p] obtain s' where
        s': "analyseClassEntities disk k mm False (s\<lparr>ws_cache := cc\<rparr>) = Some (Inr s')" by blast
      have "?I s'" using analyseClassEntities_lookup [OF s'] c by simp
      then show ?thesis using l s' by simp
    qed
    from forEachM_completes [of "ancestorNames meta" ?I ?visit st1, OF step i1]
    obtain st4 where "walkAncestors ?visit meta st1 = Some (Inr st4)"
      by (auto simp: walkAncestors_forEachM)
    then show ?thesis using Some r by simp
  qed
qed

lemma analyseClassEntities_error:
  "analyseClassEntities disk k m first st = Some (Inl e) \<Longrightarrow> \<exists>n. e = TypeError n"
proof (induction k arbitrary: m first st)
  case 0 then show ?case by simp
next
  case (Suc k)
  show ?case
  proof (cases m)
    case None then show ?thesis using Suc.prems by simp
  next
    case (Some meta)
    let ?visit = "\<lambda>name s. case loadMetaData disk name (ws_cache s) of
                    (m, c) \<Rightarrow> analyseClassEntities disk k m False (s\<lparr>ws_cache := c\<rparr>)"
    show ?thesis
    proof (cases "recordVisit meta first st")
      case (Inl e')
      then show ?thesis using Suc.prems Some recordVisit_error by auto
    next
      case (Inr st1)
      then have "forEachM ?visit (ancestorNames meta) st1 = Some (Inl e)"
        using Suc.prems Some by (auto simp: walkAncestors_forEachM split: option.splits sum.splits)
      from forEachM_error [OF this] obtain x t where v: "?visit x t = Some (Inl e)" by blast
      obtain mm cc where l: "loadMetaData disk x (ws_cache t) = (mm, cc)"
        by (cases "loadMetaData disk x (ws_cache t)")
      then have "analyseClassEntities disk k mm False (t\<lparr>ws_cache := cc\<rparr>) = Some (Inl e)"
        using v by simp
      then show ?thesis by (rule Suc.IH)
    qed
  qed
qed

lemma analyseClassEntities_keys:
  assumes "analyseClassEntities disk k m first st = Some (Inr st')"
    and "fst ` set (ce_members (ws_entities st)) \<inter> set objectPrototypeNames = {}"
    and "fst ` set (ce_properties (ws_entities st)) \<inter> set objectPrototypeNames = {}"
  shows "fst ` set (ce_members (ws_entities st')) \<inter> set objectPrototypeNames = {}
       \<and> fst ` set (ce_properties (ws_entities st')) \<inter> set objectPrototypeNames = {}"
proof -
  let ?I = "\<lambda>s. fst ` set (ce_members (ws_entities s)) \<inter> set objectPrototypeNames = {}
       \<and> fst ` set (ce_properties (ws_entities s)) \<inter> set objectPrototypeNames = {}"
  show ?thesis
  proof (rule analyseClassEntities_invariant [of "\<lambda>meta. True" ?I disk, OF _ _ _ _ assms(1)])
    show "?I s'" if "?I s" "recordVisit meta first s = Inr s'" for meta first s s'
      using recordVisit_keys [OF that(2)] that(1) by simp
    show "?I (s\<lparr>ws_cache := snd (loadMetaData disk x (ws_cache s))\<rparr>)" if "?I s" for x s
      using that by simp
    show "?I (s\<lparr>ws_entities := synthesizeAccessors meta first (ws_entities s)\<rparr>)"
      if "?I s" for meta first s
    proof -
      have "fst ` set (ce_members (synthesizeAccessors meta first (ws_entities s)))
              \<inter> set objectPrototypeNames = {}"
        using that by (intro synthesizeAccessors_keys_plain) simp
      then show ?thesis using that by (simp add: synthesizeAccessors_properties)
    qed
    show "?I st" using assms(2,3) by simp
  qed simp_all
qed

subsection \<open>The write-back of the member table\<close>

lemma materializeMember_keys:
  "fst ` set (fst acc) \<subseteq> fst ` set (fst (materializeMember row acc))"
  by (cases row, cases acc)
     (auto simp: materializeMember_def keys_update split: found.splits)

lemma materializeMember_keys_sub:
  "fst ` set (fst (materializeMember row acc)) \<subseteq> insert (fst row) (fst ` set (fst acc))"
  by (cases row, cases acc)
     (auto simp: materializeMember_def keys_update split: found.splits)

lemma fold_materializeMember_keys:
  "fst ` set (fst acc) \<subseteq> fst ` set (fst (fold materializeMember rows acc))"
proof (induction rows arbitrary: acc)
  case Nil then show ?case by simp
next
  case (Cons row rows)
  show ?case
    using materializeMember_keys [of acc row] Cons.IH [of "materializeMember row acc"] by auto
qed

lemma fold_materializeMember_keys_sub:
  "fst ` set (fst (fold materializeMember rows acc)) \<subseteq> fst ` set rows \<union> fst ` set (fst acc)"
proof (induction rows arbitrary: acc)
  case Nil then show ?case by simp
next
  case (Cons row rows)
  show ?case
    using materializeMember_keys_sub [of row acc] Cons.IH [of "materializeMember row acc"]
    by (simp add: subset_iff) blast
qed

lemma materializeMember_adds:
  "n \<notin> set objectPrototypeNames \<Longrightarrow> ei_abstract r \<or> ei_mixin r \<or> truthy (ei_property r) \<Longrightarrow>
   n \<in> fst ` set (fst (materializeMember (n, r) acc))"
  by (cases acc)
     (auto simp: materializeMember_def lookupKey_def keys_update split: option.splits
        dest!: map_of_SomeD intro: rev_image_eqI)

lemma fold_materializeMember_adds:
  "n \<notin> set objectPrototypeNames \<Longrightarrow> (n, r) \<in> set rows \<Longrightarrow> ei_abstract r \<or> ei_mixin r \<or> truthy (ei_property r) \<Longrightarrow>
   n \<in> fst ` set (fst (fold materializeMember rows acc))"
proof (induction rows arbitrary: acc)
  case Nil then show ?case by simp
next
  case (Cons row rows)
  show ?case
  proof (cases "row = (n, r)")
    case True
    then show ?thesis
      using materializeMember_adds [OF Cons.prems(1,3), of acc]
        fold_materializeMember_keys [of "materializeMember row acc" rows]
      by auto
  next
    case False
    then show ?thesis using Cons by auto
  qed
qed







lemma fst_case_pair: "fst (case x of (k, v) \<Rightarrow> (k, f k v)) = fst x"
  by (cases x) simp

lemma map_of_map_snd: "map_of (map (\<lambda>(k, v). (k, f v)) xs) n = map_option f (map_of xs n)"
  by (induction xs) auto

lemma set_update_cases:
  "p \<in> set (AList.update k v al) \<Longrightarrow> p = (k, v) \<or> p \<in> set al"
  by (induction al) (auto split: if_splits)

lemma mergeMembers_keys: "mergeMembers ce ms = Inr ms' \<Longrightarrow> map fst ms' = map fst ms"
proof (induction ms arbitrary: ms')
  case Nil then show ?case by simp
next
  case (Cons p ms)
  obtain n m where p: "p = (n, m)" by (cases p)
  from Cons.prems p obtain m' rest where
    "mergeMember ce n m = Inr m'" "mergeMembers ce ms = Inr rest" "ms' = (n, m') # rest"
    by (auto split: sum.splits)
  then show ?case using Cons.IH p by simp
qed

lemma mergeMember_type: "mergeMember ce n m = Inr m' \<Longrightarrow> mm_type m' = mm_type m"
  by (auto simp: mergeMember_def split: if_splits found.splits)

lemma mergeMembers_types:
  "mergeMembers ce ms = Inr ms' \<Longrightarrow> (n, m') \<in> set ms' \<Longrightarrow>
   \<exists>m. (n, m) \<in> set ms \<and> mm_type m' = mm_type m"
proof (induction ms arbitrary: ms')
  case Nil then show ?case by simp
next
  case (Cons p ms)
  obtain k m where p: "p = (k, m)" by (cases p)
  from Cons.prems(1) p obtain m1 rest where
    a: "mergeMember ce k m = Inr m1" and b: "mergeMembers ce ms = Inr rest"
    and c: "ms' = (k, m1) # rest"
    by (auto split: sum.splits)
  show ?case
  proof (cases "(n, m') = (k, m1)")
    case True
    then show ?thesis using mergeMember_type [OF a] p by auto
  next
    case False
    then have "(n, m') \<in> set rest" using Cons.prems(2) c by auto
    from Cons.IH [OF b this] show ?thesis by auto
  qed
qed

lemma mergeMember_error: "mergeMember ce n m = Inl e \<Longrightarrow> e = TypeError n"
  by (auto simp: mergeMember_def split: if_splits found.splits)

lemma mergeMembers_error: "mergeMembers ce ms = Inl e \<Longrightarrow> \<exists>n. e = TypeError n"
proof (induction ms)
  case Nil then show ?case by simp
next
  case (Cons p ms)
  obtain n m where p: "p = (n, m)" by (cases p)
  show ?case using Cons p by (auto split: sum.splits dest: mergeMember_error)
qed

lemma mergeMember_completes:
  "mm_type m = ''function'' \<longrightarrow> n \<notin> set objectPrototypeNames \<Longrightarrow>
   \<exists>m'. mergeMember ce n m = Inr m'"
  by (auto simp: mergeMember_def lookupKey_def split: option.splits)

lemma mergeMembers_completes:
  "\<forall>(n, m)\<in>set ms. mm_type m = ''function'' \<longrightarrow> n \<notin> set objectPrototypeNames \<Longrightarrow>
   \<exists>ms'. mergeMembers ce ms = Inr ms'"
proof (induction ms)
  case Nil then show ?case by simp
next
  case (Cons p ms)
  obtain n m where p: "p = (n, m)" by (cases p)
  from Cons.prems p have "mm_type m = ''function'' \<longrightarrow> n \<notin> set objectPrototypeNames" by simp
  from mergeMember_completes [OF this, of ce] obtain m' where a: "mergeMember ce n m = Inr m'"
    by blast
  from Cons obtain rest where "mergeMembers ce ms = Inr rest" by auto
  then show ?case using a p by simp
qed

lemma methodNames_mem:
  "cm_members meta = Some ms \<Longrightarrow> (n, m) \<in> set ms \<Longrightarrow> mm_type m = ''function'' \<Longrightarrow>
   n \<in> set (methodNames meta)"
  by (force simp: methodNames_def)

lemma plainMethods_members:
  assumes "plainMethods meta"
  shows "\<forall>(n, m)\<in>set (case cm_members meta of None \<Rightarrow> [] | Some ms \<Rightarrow> ms).
           mm_type m = ''function'' \<longrightarrow> n \<notin> set objectPrototypeNames"
proof (cases "cm_members meta")
  case None then show ?thesis by simp
next
  case (Some ms)
  have "n \<notin> set objectPrototypeNames" if "(n, m) \<in> set ms" "mm_type m = ''function''" for n m
    using methodNames_mem [OF Some that] assms by (simp add: plainMethods_def list_all_iff)
  then show ?thesis using Some by auto
qed

lemma writeBack_Inr:
  assumes "writeBack ce docs meta = Inr meta'"
  shows "\<exists>ms1. mergeMembers ce (case cm_members meta of None \<Rightarrow> [] | Some ms \<Rightarrow> ms) = Inr ms1
           \<and> cm_members meta' =
               (if mergedMembers ce ms1 (cm_abstract meta) = [] then None
                else Some (map (\<lambda>(memberName, memberMeta). (memberName, cleanMember memberMeta))
                             (mergedMembers ce ms1 (cm_abstract meta))))
           \<and> cm_properties meta' = writeBackProperties ce docs (cm_properties meta)
           \<and> ancestorNames meta' = ancestorNames meta"
  using assms
  by (auto simp: writeBack_def mergedMembers_def Let_def ancestorNames_def
        split: sum.splits prod.splits)

lemma writeBack_completes:
  "plainMethods meta \<Longrightarrow> \<exists>meta'. writeBack ce docs meta = Inr meta'"
  using mergeMembers_completes [OF plainMethods_members, of meta ce]
  by (auto simp: writeBack_def Let_def split: prod.splits)

lemma writeBack_error: "writeBack ce docs meta = Inl e \<Longrightarrow> \<exists>n. e = TypeError n"
  by (auto simp: writeBack_def Let_def split: sum.splits prod.splits dest: mergeMembers_error)

lemma cleaned_names:
  "fst ` set (map (\<lambda>(memberName, memberMeta). (memberName, cleanMember memberMeta)) M)
     = fst ` set M"
  by (simp add: fst_case_pair image_image)

lemma cleaned_lookup:
  "map_of (map (\<lambda>(memberName, memberMeta). (memberName, cleanMember memberMeta)) M) n
     = map_option cleanMember (map_of M n)"
  by (rule map_of_map_snd)

lemma writeBack_members:
  assumes "writeBack ce docs meta = Inr meta'"
  shows "\<exists>ms1. mergeMembers ce (case cm_members meta of None \<Rightarrow> [] | Some ms \<Rightarrow> ms) = Inr ms1
           \<and> fst ` set ms1 = set (memberNames meta)
           \<and> set (memberNames meta') = fst ` set (mergedMembers ce ms1 (cm_abstract meta))
           \<and> (\<forall>n. memberOf meta' n =
                  map_option cleanMember (map_of (mergedMembers ce ms1 (cm_abstract meta)) n))"
proof -
  from writeBack_Inr [OF assms] obtain ms1 where
    a: "mergeMembers ce (case cm_members meta of None \<Rightarrow> [] | Some ms \<Rightarrow> ms) = Inr ms1"
    and b: "cm_members meta' =
               (if mergedMembers ce ms1 (cm_abstract meta) = [] then None
                else Some (map (\<lambda>(memberName, memberMeta). (memberName, cleanMember memberMeta))
                             (mergedMembers ce ms1 (cm_abstract meta))))"
    by blast
  have "map fst ms1 = map fst (case cm_members meta of None \<Rightarrow> [] | Some ms \<Rightarrow> ms)"
    using mergeMembers_keys [OF a] .
  then have "set (map fst ms1) = set (memberNames meta)"
    by (simp add: memberNames_def keys_def split: option.splits)
  then have k: "fst ` set ms1 = set (memberNames meta)" by simp
  have n: "set (memberNames meta') = fst ` set (mergedMembers ce ms1 (cm_abstract meta))"
  proof (cases "mergedMembers ce ms1 (cm_abstract meta) = []")
    case True
    then show ?thesis using b by (simp add: memberNames_def)
  next
    case False
    then have "set (memberNames meta') =
        fst ` set (map (\<lambda>(memberName, memberMeta). (memberName, cleanMember memberMeta))
                     (mergedMembers ce ms1 (cm_abstract meta)))"
      using b by (simp add: memberNames_def keys_def image_image)
    then show ?thesis by (simp only: cleaned_names)
  qed
  have o: "memberOf meta' n =
             map_option cleanMember (map_of (mergedMembers ce ms1 (cm_abstract meta)) n)" for n
    using b by (simp add: memberOf_def cleaned_lookup)
  show ?thesis using a k n o by blast
qed

lemma writeBack_keeps_names:
  assumes "writeBack ce docs meta = Inr meta'"
  shows "set (memberNames meta) \<subseteq> set (memberNames meta')"
proof -
  from writeBack_members [OF assms] obtain ms1 where
    k: "fst ` set ms1 = set (memberNames meta)"
    and n: "set (memberNames meta') = fst ` set (mergedMembers ce ms1 (cm_abstract meta))"
    by blast
  show ?thesis
    using fold_materializeMember_keys [of "(ms1, cm_abstract meta)" "ce_members ce"] k n
    by (simp add: mergedMembers_def)
qed

subsection \<open>Names that are no names of \<^verbatim>\<open>Object.prototype\<close>\<close>

lemma materializeMember_plain:
  assumes "\<forall>(k, m)\<in>set (fst acc). mm_type m = ''function'' \<longrightarrow> k \<notin> set objectPrototypeNames"
    and "fst row \<notin> set objectPrototypeNames"
  shows "\<forall>(k, m)\<in>set (fst (materializeMember row acc)).
           mm_type m = ''function'' \<longrightarrow> k \<notin> set objectPrototypeNames"
proof -
  obtain n r where row: "row = (n, r)" by (cases row)
  obtain members abstract where acc: "acc = (members, abstract)" by (cases acc)
  have "fst (materializeMember row acc) = members
        \<or> (\<exists>v. fst (materializeMember row acc) = AList.update n v members)"
    using row acc by (auto simp: materializeMember_def split: found.splits)
  then show ?thesis
  proof
    assume "fst (materializeMember row acc) = members"
    then show ?thesis using assms(1) acc by simp
  next
    assume "\<exists>v. fst (materializeMember row acc) = AList.update n v members"
    then obtain v where v: "fst (materializeMember row acc) = AList.update n v members" by blast
    have "k \<notin> set objectPrototypeNames"
      if "(k, m) \<in> set (AList.update n v members)" "mm_type m = ''function''" for k m
    proof -
      from set_update_cases [OF that(1)] have "(k, m) = (n, v) \<or> (k, m) \<in> set members" .
      then show ?thesis using assms row acc that(2) by auto
    qed
    then show ?thesis using v by auto
  qed
qed

lemma fold_materializeMember_plain:
  "\<forall>(k, m)\<in>set (fst acc). mm_type m = ''function'' \<longrightarrow> k \<notin> set objectPrototypeNames \<Longrightarrow>
   fst ` set rows \<inter> set objectPrototypeNames = {} \<Longrightarrow>
   \<forall>(k, m)\<in>set (fst (fold materializeMember rows acc)).
      mm_type m = ''function'' \<longrightarrow> k \<notin> set objectPrototypeNames"
proof (induction rows arbitrary: acc)
  case Nil then show ?case by simp
next
  case (Cons row rows)
  have "fst row \<notin> set objectPrototypeNames" using Cons.prems(2) by auto
  from materializeMember_plain [OF Cons.prems(1) this]
  have "\<forall>(k, m)\<in>set (fst (materializeMember row acc)).
           mm_type m = ''function'' \<longrightarrow> k \<notin> set objectPrototypeNames" .
  moreover have "fst ` set rows \<inter> set objectPrototypeNames = {}" using Cons.prems(2) by auto
  ultimately show ?case using Cons.IH by simp
qed

lemma materializeProperties_keys:
  "fst ` set (materializeProperties ce ps) \<subseteq> fst ` set (ce_properties ce) \<union> fst ` set ps"
proof -
  let ?F = "\<lambda>(propertyName, propertyInfo) ps.
             if (ei_abstract propertyInfo \<or> ei_mixin propertyInfo)
                \<and> map_of ps ''[object Object]'' = None
             then AList.update propertyName (materializedProperty propertyName propertyInfo) ps
             else ps"
  have "fst ` set (fold ?F rows ps) \<subseteq> fst ` set rows \<union> fst ` set ps" for rows
  proof (induction rows arbitrary: ps)
    case Nil then show ?case by simp
  next
    case (Cons row rows)
    have s: "fst ` set (?F row ps) \<subseteq> insert (fst row) (fst ` set ps)"
      by (cases row) (auto simp: keys_update)
    have "fst ` set (fold ?F rows (?F row ps)) \<subseteq> fst ` set rows \<union> fst ` set (?F row ps)"
      by (rule Cons.IH)
    then have "fst ` set (fold ?F rows (?F row ps))
                 \<subseteq> fst ` set rows \<union> insert (fst row) (fst ` set ps)"
      using s by blast
    then show ?case by (simp add: subset_iff)
  qed
  then show ?thesis by (simp add: materializeProperties_def)
qed

lemma writeBack_plain:
  assumes w: "writeBack ce docs meta = Inr meta'" and p: "plainNames meta"
    and km: "fst ` set (ce_members ce) \<inter> set objectPrototypeNames = {}"
    and kp: "fst ` set (ce_properties ce) \<inter> set objectPrototypeNames = {}"
  shows "plainNames meta'"
proof -
  from writeBack_Inr [OF w] obtain ms1 where
    a: "mergeMembers ce (case cm_members meta of None \<Rightarrow> [] | Some ms \<Rightarrow> ms) = Inr ms1"
    and b: "cm_members meta' =
               (if mergedMembers ce ms1 (cm_abstract meta) = [] then None
                else Some (map (\<lambda>(memberName, memberMeta). (memberName, cleanMember memberMeta))
                             (mergedMembers ce ms1 (cm_abstract meta))))"
    and c: "cm_properties meta' = writeBackProperties ce docs (cm_properties meta)"
    by blast
  let ?M = "mergedMembers ce ms1 (cm_abstract meta)"
  have pm: "plainMethods meta" using p by (simp add: plainNames_def)
  have j1: "\<forall>(k, m)\<in>set ms1. mm_type m = ''function'' \<longrightarrow> k \<notin> set objectPrototypeNames"
  proof -
    have "k \<notin> set objectPrototypeNames" if "(k, m') \<in> set ms1" "mm_type m' = ''function''"
      for k m'
    proof -
      from mergeMembers_types [OF a that(1)] obtain m where
        "(k, m) \<in> set (case cm_members meta of None \<Rightarrow> [] | Some ms \<Rightarrow> ms)"
        "mm_type m' = mm_type m" by blast
      then show ?thesis using plainMethods_members [OF pm] that(2) by auto
    qed
    then show ?thesis by auto
  qed
  have jM: "\<forall>(k, m)\<in>set ?M. mm_type m = ''function'' \<longrightarrow> k \<notin> set objectPrototypeNames"
    using fold_materializeMember_plain [of "(ms1, cm_abstract meta)" "ce_members ce"] j1 km
    by (simp add: mergedMembers_def)
  have "n \<notin> set objectPrototypeNames" if "n \<in> set (methodNames meta')" for n
  proof -
    from that b obtain m where "(n, m) \<in> set ?M" "mm_type (cleanMember m) = ''function''"
      by (auto simp: methodNames_def split: if_splits)
    moreover have "mm_type (cleanMember m) = mm_type m" by (simp add: cleanMember_def Let_def)
    ultimately show ?thesis using jM by auto
  qed
  then have m: "plainMethods meta'" by (simp add: plainMethods_def list_all_iff)
  have "n \<notin> set objectPrototypeNames" if "n \<in> set (propertyNames meta')" for n
  proof (cases "cm_properties meta")
    case None
    then show ?thesis using that c by (simp add: propertyNames_def writeBackProperties_def)
  next
    case (Some ps)
    let ?ps = "map (\<lambda>(propertyName, propertyMeta).
                      (propertyName, refineProperty ce docs propertyName propertyMeta)) ps"
    have "n \<in> fst ` set (materializeProperties ce ?ps)"
      using that c Some by (simp add: propertyNames_def writeBackProperties_def keys_def)
    then have "n \<in> fst ` set (ce_properties ce) \<union> fst ` set ?ps"
      using materializeProperties_keys by blast
    moreover have "fst ` set ?ps = set (propertyNames meta)"
      using Some by (simp add: propertyNames_def keys_def fst_case_pair image_image)
    ultimately show ?thesis using kp p by (auto simp: plainNames_def list_all_iff)
  qed
  then show ?thesis using m by (simp add: plainNames_def list_all_iff)
qed

subsection \<open>The merge of one class\<close>

lemma updateMetaData_Inr:
  assumes "updateMetaData disk fuel c meta ws docs = Some (Inr (meta', ws', docs'))"
  shows "\<exists>st. analyseClassEntities disk fuel (Some meta) True
                 \<lparr> ws_entities = emptyEntities, ws_cache = ws, ws_protoJsdoc = docs \<rparr>
               = Some (Inr st)
             \<and> writeBack (ws_entities st) (ws_protoJsdoc st) meta = Inr meta'
             \<and> ws' = ws_cache st \<and> docs' = ws_protoJsdoc st"
  using assms by (auto simp: updateMetaData_def split: option.splits sum.splits)

lemma updateMetaData_Suc:
  assumes "updateMetaData disk (Suc k) c meta ws docs = Some (Inr (meta', ws', docs'))"
  shows "\<exists>st. ancestorEntities disk k meta ws docs = Some (Inr st)
             \<and> writeBack (synthesizeAccessors meta True (ws_entities st)) (ws_protoJsdoc st) meta
                 = Inr meta'
             \<and> ws' = ws_cache st"
  using assms
  by (auto simp: updateMetaData_def ancestorEntities_def split: option.splits sum.splits)

lemma updateMetaData_extends:
  assumes "updateMetaData disk fuel c meta ws docs = Some (Inr (meta', ws', docs'))"
  shows "extendsFromDisk disk ws ws'"
proof -
  from updateMetaData_Inr [OF assms] obtain st where
    a: "analyseClassEntities disk fuel (Some meta) True
          \<lparr> ws_entities = emptyEntities, ws_cache = ws, ws_protoJsdoc = docs \<rparr> = Some (Inr st)"
    and w: "ws' = ws_cache st" by blast
  from analyseClassEntities_extends [OF a] show ?thesis using w by simp
qed


lemma updateMetaData_ancestorNames:
  assumes "updateMetaData disk fuel c meta ws docs = Some (Inr (meta', ws', docs'))"
  shows "ancestorNames meta' = ancestorNames meta"
proof -
  from updateMetaData_Inr [OF assms] obtain st :: walk_state where
    "writeBack (ws_entities st) (ws_protoJsdoc st) meta = Inr meta'" by blast
  from writeBack_Inr [OF this] show ?thesis by blast
qed

lemma updateMetaData_plain:
  assumes "updateMetaData disk fuel c meta ws docs = Some (Inr (meta', ws', docs'))"
    and "plainNames meta"
  shows "plainNames meta'"
proof -
  from updateMetaData_Inr [OF assms(1)] obtain st where
    a: "analyseClassEntities disk fuel (Some meta) True
          \<lparr> ws_entities = emptyEntities, ws_cache = ws, ws_protoJsdoc = docs \<rparr> = Some (Inr st)"
    and w: "writeBack (ws_entities st) (ws_protoJsdoc st) meta = Inr meta'" by blast
  have k: "fst ` set (ce_members (ws_entities st)) \<inter> set objectPrototypeNames = {}
       \<and> fst ` set (ce_properties (ws_entities st)) \<inter> set objectPrototypeNames = {}"
    using analyseClassEntities_keys [OF a] by (simp add: emptyEntities_def)
  show ?thesis using writeBack_plain [OF w assms(2)] k by blast
qed

lemma updateMetaData_returns:
  "boundedAncestry (lookupMeta disk ws) fuel (Some meta) \<Longrightarrow>
   \<exists>r. updateMetaData disk fuel c meta ws docs = Some r"
  using analyseClassEntities_returns
          [of disk "\<lparr> ws_entities = emptyEntities, ws_cache = ws, ws_protoJsdoc = docs \<rparr>"
              fuel "Some meta" True]
  by (auto simp: updateMetaData_def split: sum.splits)

lemma updateMetaData_completes:
  assumes "boundedAncestry (lookupMeta disk ws) fuel (Some meta)"
    and "plainMethods meta"
    and "\<forall>x mm. lookupMeta disk ws x = Some mm \<longrightarrow> plainNames mm"
  shows "\<exists>meta' ws' docs'. updateMetaData disk fuel c meta ws docs = Some (Inr (meta', ws', docs'))"
proof -
  let ?st0 = "\<lparr> ws_entities = emptyEntities, ws_cache = ws, ws_protoJsdoc = docs \<rparr>"
  from analyseClassEntities_completes [OF assms(3) assms(1), where st = ?st0 and first = True]
  obtain st where a: "analyseClassEntities disk fuel (Some meta) True ?st0 = Some (Inr st)"
    by auto
  from writeBack_completes [OF assms(2), of "ws_entities st" "ws_protoJsdoc st"]
  obtain meta' where "writeBack (ws_entities st) (ws_protoJsdoc st) meta = Inr meta'" by blast
  then show ?thesis using a by (simp add: updateMetaData_def)
qed

lemma updateMetaData_error:
  "updateMetaData disk fuel c meta ws docs = Some (Inl e) \<Longrightarrow> \<exists>n. e = TypeError n"
  by (auto simp: updateMetaData_def split: option.splits sum.splits
        dest: analyseClassEntities_error writeBack_error)

subsection \<open>Saving the meta\<close>

lemma saveAll_Cons:
  "saveAll ((c, m) # ts) ss =
     ((case fst (saveMetaData c m ss) of None \<Rightarrow> [] | Some e \<Rightarrow> [e])
        @ fst (saveAll ts (snd (saveMetaData c m ss))),
      snd (saveAll ts (snd (saveMetaData c m ss))))"
  by (simp split: prod.splits)

lemma saveAll_ok:
  "distinct (map fst ts) \<Longrightarrow> fst ` set ts \<inter> ss_metaWrittenLog ss = {} \<Longrightarrow>
   fst (saveAll ts ss) = [] \<and> ss_writes (snd (saveAll ts ss)) = rev ts @ ss_writes ss"
proof (induction ts arbitrary: ss)
  case Nil then show ?case by simp
next
  case (Cons p ts)
  obtain c m where p: "p = (c, m)" by (cases p)
  let ?ss = "snd (saveMetaData c m ss)"
  have c: "c \<notin> ss_metaWrittenLog ss" using Cons.prems(2) p by auto
  then have s: "saveMetaData c m ss =
      (None, \<lparr> ss_metaWrittenLog = insert c (ss_metaWrittenLog ss),
               ss_disk = (ss_disk ss)(c \<mapsto> m), ss_writes = (c, m) # ss_writes ss \<rparr>)"
    by (simp add: saveMetaData_def)
  have "fst ` set ts \<inter> ss_metaWrittenLog ?ss = {}"
    using Cons.prems p s by auto
  with Cons.IH [of ?ss] Cons.prems(1)
  have "fst (saveAll ts ?ss) = [] \<and> ss_writes (snd (saveAll ts ?ss)) = rev ts @ ss_writes ?ss"
    by simp
  then show ?case using p s by (simp add: saveAll_Cons del: saveAll.simps)
qed

lemma saveAll_disk_other:
  "c \<notin> fst ` set ts \<Longrightarrow> ss_disk (snd (saveAll ts ss)) c = ss_disk ss c"
proof (induction ts arbitrary: ss)
  case Nil then show ?case by simp
next
  case (Cons p ts)
  obtain x m where p: "p = (x, m)" by (cases p)
  have "ss_disk (snd (saveMetaData x m ss)) c = ss_disk ss c"
    using Cons.prems p by (auto simp: saveMetaData_def)
  then show ?case using Cons.IH [of "snd (saveMetaData x m ss)"] Cons.prems p
    by (simp add: saveAll_Cons del: saveAll.simps)
qed

lemma saveAll_disk:
  "distinct (map fst ts) \<Longrightarrow> fst ` set ts \<inter> ss_metaWrittenLog ss = {} \<Longrightarrow>
   (c, m) \<in> set ts \<Longrightarrow> ss_disk (snd (saveAll ts ss)) c = Some m"
proof (induction ts arbitrary: ss)
  case Nil then show ?case by simp
next
  case (Cons p ts)
  obtain x y where p: "p = (x, y)" by (cases p)
  let ?ss = "snd (saveMetaData x y ss)"
  have x: "x \<notin> ss_metaWrittenLog ss" using Cons.prems(2) p by auto
  then have s: "saveMetaData x y ss =
      (None, \<lparr> ss_metaWrittenLog = insert x (ss_metaWrittenLog ss),
               ss_disk = (ss_disk ss)(x \<mapsto> y), ss_writes = (x, y) # ss_writes ss \<rparr>)"
    by (simp add: saveMetaData_def)
  have d: "fst ` set ts \<inter> ss_metaWrittenLog ?ss = {}"
    using Cons.prems p s by auto
  show ?case
  proof (cases "(c, m) = (x, y)")
    case True
    then have "c \<notin> fst ` set ts" using Cons.prems(1) p by auto
    then have "ss_disk (snd (saveAll ts ?ss)) c = ss_disk ?ss c" by (rule saveAll_disk_other)
    then show ?thesis using True p s by (simp add: saveAll_Cons del: saveAll.simps)
  next
    case False
    then have "(c, m) \<in> set ts" using Cons.prems(3) p by auto
    then have "ss_disk (snd (saveAll ts ?ss)) c = Some m"
      using Cons.IH [of ?ss] Cons.prems(1) d by simp
    then show ?thesis using p by (simp add: saveAll_Cons del: saveAll.simps)
  qed
qed

subsection \<open>What the merge stages for saving\<close>

lemma calcDescendants_names:
  "cm_descendants (calcDescendants db c m) = Some (descendantNames db c)"
  by (simp add: calcDescendants_def descendantNames_def)

lemma staged_update:
  "staged db ts \<Longrightarrow> staged db (AList.update c (calcDescendants db c m) ts)"
  unfolding staged_def
  by (auto simp: distinct_update calcDescendants_names dest!: set_update_cases)

lemma mergeCompiled_Cons:
  assumes "mergeCompiled disk fuel db (c # cs) st = Some (Inr st')"
  shows "(ms_cache st c = None \<and> mergeCompiled disk fuel db cs st = Some (Inr st'))
       \<or> (\<exists>meta meta' cache' docs'.
             ms_cache st c = Some meta
             \<and> updateMetaData disk fuel c meta (ms_cache st) (ms_protoJsdoc st)
                 = Some (Inr (meta', cache', docs'))
             \<and> mergeCompiled disk fuel db cs
                 \<lparr> ms_cache = cache'(c \<mapsto> calcDescendants db c meta'),
                   ms_toSave = AList.update c (calcDescendants db c meta') (ms_toSave st),
                   ms_protoJsdoc = docs' \<rparr> = Some (Inr st'))"
  using assms by (auto split: option.splits sum.splits)

lemma mergeCompiled_invariant:
  assumes "mergeCompiled disk fuel db cs st = Some (Inr st')" and "I st"
    and "\<And>c meta meta' cache' docs' s.
           I s \<Longrightarrow> ms_cache s c = Some meta \<Longrightarrow>
           updateMetaData disk fuel c meta (ms_cache s) (ms_protoJsdoc s)
             = Some (Inr (meta', cache', docs')) \<Longrightarrow>
           I \<lparr> ms_cache = cache'(c \<mapsto> calcDescendants db c meta'),
               ms_toSave = AList.update c (calcDescendants db c meta') (ms_toSave s),
               ms_protoJsdoc = docs' \<rparr>"
  shows "I st'"
  using assms(1,2)
proof (induction cs arbitrary: st)
  case Nil then show ?case by simp
next
  case (Cons c cs)
  from mergeCompiled_Cons [OF Cons.prems(1)] show ?case
  proof
    assume "ms_cache st c = None \<and> mergeCompiled disk fuel db cs st = Some (Inr st')"
    then show ?thesis using Cons.IH Cons.prems(2) by blast
  next
    assume "\<exists>meta meta' cache' docs'.
             ms_cache st c = Some meta
             \<and> updateMetaData disk fuel c meta (ms_cache st) (ms_protoJsdoc st)
                 = Some (Inr (meta', cache', docs'))
             \<and> mergeCompiled disk fuel db cs
                 \<lparr> ms_cache = cache'(c \<mapsto> calcDescendants db c meta'),
                   ms_toSave = AList.update c (calcDescendants db c meta') (ms_toSave st),
                   ms_protoJsdoc = docs' \<rparr> = Some (Inr st')"
    then obtain meta meta' cache' docs' where
      m: "ms_cache st c = Some meta"
      and u: "updateMetaData disk fuel c meta (ms_cache st) (ms_protoJsdoc st)
                = Some (Inr (meta', cache', docs'))"
      and r: "mergeCompiled disk fuel db cs
                 \<lparr> ms_cache = cache'(c \<mapsto> calcDescendants db c meta'),
                   ms_toSave = AList.update c (calcDescendants db c meta') (ms_toSave st),
                   ms_protoJsdoc = docs' \<rparr> = Some (Inr st')"
      by blast
    from assms(3) [OF Cons.prems(2) m u] Cons.IH [OF r] show ?thesis by blast
  qed
qed

lemma mergeCompiled_staged:
  assumes "mergeCompiled disk fuel db cs st = Some (Inr st')" and "staged db (ms_toSave st)"
  shows "staged db (ms_toSave st')"
  using mergeCompiled_invariant [OF assms(1), of "\<lambda>s. staged db (ms_toSave s)"] assms(2)
  by (simp add: staged_update)



lemma mergeCompiled_error:
  "mergeCompiled disk fuel db cs st = Some (Inl e) \<Longrightarrow> \<exists>n. e = TypeError n"
proof (induction cs arbitrary: st)
  case Nil then show ?case by simp
next
  case (Cons c cs)
  then show ?case
    by (auto split: option.splits sum.splits dest: updateMetaData_error)
qed

subsection \<open>The merge of a run ends on a bounded hierarchy\<close>

lemma boundedAncestry_cong:
  "\<forall>c. map_option ancestorNames (L c) = map_option ancestorNames (L' c) \<Longrightarrow>
   map_option ancestorNames m = map_option ancestorNames m' \<Longrightarrow>
   boundedAncestry L k m \<Longrightarrow> boundedAncestry L' k m'"
proof (induction k arbitrary: m m')
  case 0 then show ?case by simp
next
  case (Suc k)
  show ?case
  proof (cases m')
    case None then show ?thesis by simp
  next
    case (Some meta')
    then obtain meta where m: "m = Some meta" and a: "ancestorNames meta = ancestorNames meta'"
      using Suc.prems(2) by (cases m) auto
    have "boundedAncestry L' k (L' c)" if "c \<in> set (ancestorNames meta')" for c
    proof -
      have "boundedAncestry L k (L c)" using Suc.prems(3) m a that by (simp add: list_all_iff)
      then show ?thesis using Suc.IH [of "L c" "L' c"] Suc.prems(1) by simp
    qed
    then show ?thesis using Some by (simp add: list_all_iff)
  qed
qed

lemma hierarchyBounded_step:
  assumes h: "hierarchyBounded disk ws fuel" and c: "ws c = Some meta"
    and e: "extendsFromDisk disk ws ws'" and a: "ancestorNames meta'' = ancestorNames meta"
  shows "hierarchyBounded disk (ws'(c \<mapsto> meta'')) fuel"
proof -
  let ?L = "lookupMeta disk ws" and ?L' = "lookupMeta disk (ws'(c \<mapsto> meta''))"
  have l: "lookupMeta disk ws' = ?L" using e by (rule extendsFromDisk_lookup)
  have "ws' c = ws c \<or> (ws c = None \<and> ws' c = disk c)"
    using e by (simp add: extendsFromDisk_def)
  then have wc: "ws' c = Some meta" using c by auto
  have eq: "\<forall>x. map_option ancestorNames (?L x) = map_option ancestorNames (?L' x)"
  proof
    fix x
    show "map_option ancestorNames (?L x) = map_option ancestorNames (?L' x)"
    proof (cases "x = c")
      case True
      have "?L c = lookupMeta disk ws' c" using l by simp
      then show ?thesis using True wc a
        by (auto simp: lookupMeta_def loadMetaData_def)
    next
      case False
      have "?L' x = lookupMeta disk ws' x" using False
        by (auto simp: lookupMeta_def loadMetaData_def split: option.splits)
      then show ?thesis using l by simp
    qed
  qed
  show ?thesis unfolding hierarchyBounded_def
  proof (intro allI impI)
    fix x m assume k: "(ws'(c \<mapsto> meta'')) x = Some m \<or> disk x = Some m"
    have "\<exists>m0. (ws x = Some m0 \<or> disk x = Some m0) \<and> ancestorNames m0 = ancestorNames m"
    proof (cases "x = c")
      case True
      then show ?thesis using k c a by auto
    next
      case False
      have "ws' x = ws x \<or> (ws x = None \<and> ws' x = disk x)"
        using e by (simp add: extendsFromDisk_def)
      then have "ws x = Some m \<or> disk x = Some m" using k False by auto
      then show ?thesis by blast
    qed
    then obtain m0 where m0: "ws x = Some m0 \<or> disk x = Some m0"
      "ancestorNames m0 = ancestorNames m" by blast
    then have "boundedAncestry ?L fuel (Some m0)" using h by (auto simp: hierarchyBounded_def)
    then show "boundedAncestry ?L' fuel (Some m)"
      using boundedAncestry_cong [OF eq, of "Some m0" "Some m"] m0(2) by simp
  qed
qed

lemma lookupMeta_in:
  "lookupMeta disk ws c = Some m \<Longrightarrow> ws c = Some m \<or> disk c = Some m"
  by (auto simp: lookupMeta_def loadMetaData_def split: if_splits option.splits)

lemma allPlain_step:
  assumes h: "allPlain disk ws" and e: "extendsFromDisk disk ws ws'" and p: "plainNames meta''"
  shows "allPlain disk (ws'(c \<mapsto> meta''))"
  unfolding allPlain_def
proof (intro allI impI)
  fix x m assume k: "(ws'(c \<mapsto> meta'')) x = Some m \<or> disk x = Some m"
  show "plainNames m"
  proof (cases "x = c \<and> m = meta''")
    case True then show ?thesis using p by simp
  next
    case False
    have "ws' x = ws x \<or> (ws x = None \<and> ws' x = disk x)"
      using e by (simp add: extendsFromDisk_def)
    then have "ws x = Some m \<or> disk x = Some m" using k False by (auto split: if_splits)
    then show ?thesis using h by (auto simp: allPlain_def)
  qed
qed

lemma mergeCompiled_returns:
  "hierarchyBounded disk (ms_cache st) fuel \<Longrightarrow>
   \<exists>r. mergeCompiled disk fuel db cs st = Some r"
proof (induction cs arbitrary: st)
  case Nil then show ?case by simp
next
  case (Cons c cs)
  show ?case
  proof (cases "ms_cache st c")
    case None then show ?thesis using Cons by simp
  next
    case (Some meta)
    then have "boundedAncestry (lookupMeta disk (ms_cache st)) fuel (Some meta)"
      using Cons.prems by (auto simp: hierarchyBounded_def)
    from updateMetaData_returns [OF this, of c "ms_protoJsdoc st"] obtain r where
      u: "updateMetaData disk fuel c meta (ms_cache st) (ms_protoJsdoc st) = Some r" by auto
    show ?thesis
    proof (cases r)
      case (Inl e) then show ?thesis using Some u by simp
    next
      case (Inr t)
      obtain meta' ws' docs' where t: "t = (meta', ws', docs')" by (cases t)
      let ?st = "\<lparr> ms_cache = ws'(c \<mapsto> calcDescendants db c meta'),
                   ms_toSave = AList.update c (calcDescendants db c meta') (ms_toSave st),
                   ms_protoJsdoc = docs' \<rparr>"
      have u': "updateMetaData disk fuel c meta (ms_cache st) (ms_protoJsdoc st)
                  = Some (Inr (meta', ws', docs'))" using u Inr t by simp
      have "ancestorNames (calcDescendants db c meta') = ancestorNames meta"
        using updateMetaData_ancestorNames [OF u'] by (simp add: ancestorNames_def calcDescendants_def)
      then have "hierarchyBounded disk (ms_cache ?st) fuel"
        using hierarchyBounded_step [OF Cons.prems Some updateMetaData_extends [OF u']] by simp
      from Cons.IH [OF this] show ?thesis using Some u' by simp
    qed
  qed
qed

lemma calcDescendants_plain: "plainNames (calcDescendants db c m) = plainNames m"
  by (simp add: plainNames_def plainMethods_def methodNames_def propertyNames_def
        calcDescendants_def)

lemma mergeCompiled_completes:
  "hierarchyBounded disk (ms_cache st) fuel \<Longrightarrow> allPlain disk (ms_cache st) \<Longrightarrow>
   \<exists>st'. mergeCompiled disk fuel db cs st = Some (Inr st')"
proof (induction cs arbitrary: st)
  case Nil then show ?case by simp
next
  case (Cons c cs)
  show ?case
  proof (cases "ms_cache st c")
    case None then show ?thesis using Cons by simp
  next
    case (Some meta)
    then have b: "boundedAncestry (lookupMeta disk (ms_cache st)) fuel (Some meta)"
      using Cons.prems(1) by (auto simp: hierarchyBounded_def)
    have p: "plainNames meta" using Cons.prems(2) Some by (auto simp: allPlain_def)
    then have pm: "plainMethods meta" by (simp add: plainNames_def)
    have a: "\<forall>x mm. lookupMeta disk (ms_cache st) x = Some mm \<longrightarrow> plainNames mm"
      using Cons.prems(2) lookupMeta_in [of disk "ms_cache st"] by (auto simp: allPlain_def)
    from updateMetaData_completes [OF b pm a, of c "ms_protoJsdoc st"]
    obtain meta' ws' docs' where
      u: "updateMetaData disk fuel c meta (ms_cache st) (ms_protoJsdoc st)
            = Some (Inr (meta', ws', docs'))" by blast
    let ?st = "\<lparr> ms_cache = ws'(c \<mapsto> calcDescendants db c meta'),
                 ms_toSave = AList.update c (calcDescendants db c meta') (ms_toSave st),
                 ms_protoJsdoc = docs' \<rparr>"
    have "ancestorNames (calcDescendants db c meta') = ancestorNames meta"
      using updateMetaData_ancestorNames [OF u] by (simp add: ancestorNames_def calcDescendants_def)
    then have h: "hierarchyBounded disk (ms_cache ?st) fuel"
      using hierarchyBounded_step [OF Cons.prems(1) Some updateMetaData_extends [OF u]] by simp
    have "plainNames (calcDescendants db c meta')"
      using updateMetaData_plain [OF u p] by (simp add: calcDescendants_plain)
    then have "allPlain disk (ms_cache ?st)"
      using allPlain_step [OF Cons.prems(2) updateMetaData_extends [OF u]] by simp
    from Cons.IH [OF h this] show ?thesis using Some u by simp
  qed
qed

subsection \<open>Which classes are saved\<close>








lemma fixupDescendants_staged:
  "staged db (ms_toSave st) \<Longrightarrow> staged db (ms_toSave (fixupDescendants disk db compiled c st))"
  by (auto simp: fixupDescendants_def staged_update split: prod.splits option.splits)

lemma fold_fixupDescendants_staged:
  "staged db (ms_toSave st) \<Longrightarrow>
   staged db (ms_toSave (fold (fixupDescendants disk db compiled) cs st))"
  by (induction cs arbitrary: st) (auto simp: fixupDescendants_staged)

lemma analyzeMeta_Inr:
  assumes "analyzeMeta parseJsDoc disk fuel db compiled fixups docs = Some (Inr r)"
  shows "\<exists>st. mergeCompiled disk fuel db (keys compiled)
                 \<lparr> ms_cache = stageCompiled parseJsDoc compiled Map.empty, ms_toSave = [],
                   ms_protoJsdoc = docs \<rparr> = Some (Inr st)
             \<and> r = \<lparr> rr_errors =
                       fst (saveAll (ms_toSave (fold (fixupDescendants disk db compiled)
                                                  (keys fixups) st))
                              \<lparr> ss_metaWrittenLog = {}, ss_disk = disk, ss_writes = [] \<rparr>),
                     rr_saved =
                       snd (saveAll (ms_toSave (fold (fixupDescendants disk db compiled)
                                                  (keys fixups) st))
                              \<lparr> ss_metaWrittenLog = {}, ss_disk = disk, ss_writes = [] \<rparr>),
                     rr_cache = ms_cache (fold (fixupDescendants disk db compiled)
                                            (keys fixups) st) \<rparr>"
  using assms
  by (auto simp: analyzeMeta_def Let_def split: option.splits sum.splits prod.splits)

lemma analyzeMeta_writes:
  assumes "analyzeMeta parseJsDoc disk fuel db compiled fixups docs = Some (Inr r)"
  shows "\<exists>ts. staged db ts \<and> rr_errors r = [] \<and> ss_writes (rr_saved r) = rev ts
           \<and> (\<forall>(c, m)\<in>set ts. ss_disk (rr_saved r) c = Some m)
           \<and> (\<exists>st. mergeCompiled disk fuel db (keys compiled)
                      \<lparr> ms_cache = stageCompiled parseJsDoc compiled Map.empty, ms_toSave = [],
                        ms_protoJsdoc = docs \<rparr>
                      = Some (Inr st)
                    \<and> ts = ms_toSave (fold (fixupDescendants disk db compiled) (keys fixups) st))"
proof -
  let ?st0 = "\<lparr> ms_cache = stageCompiled parseJsDoc compiled Map.empty, ms_toSave = [],
                ms_protoJsdoc = docs \<rparr>"
  let ?ss0 = "\<lparr> ss_metaWrittenLog = {}, ss_disk = disk, ss_writes = [] \<rparr>"
  from analyzeMeta_Inr [OF assms] obtain st where
    m: "mergeCompiled disk fuel db (keys compiled) ?st0 = Some (Inr st)"
    and r: "r = \<lparr> rr_errors =
                    fst (saveAll (ms_toSave (fold (fixupDescendants disk db compiled)
                                               (keys fixups) st)) ?ss0),
                  rr_saved =
                    snd (saveAll (ms_toSave (fold (fixupDescendants disk db compiled)
                                               (keys fixups) st)) ?ss0),
                  rr_cache = ms_cache (fold (fixupDescendants disk db compiled)
                                         (keys fixups) st) \<rparr>"
    by blast
  let ?st' = "fold (fixupDescendants disk db compiled) (keys fixups) st"
  have "staged db (ms_toSave ?st0)" by (simp add: staged_def)
  then have s: "staged db (ms_toSave ?st')"
    using mergeCompiled_staged [OF m] fold_fixupDescendants_staged by blast
  then have d: "distinct (map fst (ms_toSave ?st'))" by (simp add: staged_def)
  have "fst (saveAll (ms_toSave ?st') ?ss0) = []
        \<and> ss_writes (snd (saveAll (ms_toSave ?st') ?ss0)) = rev (ms_toSave ?st') @ []"
    using saveAll_ok [OF d, of ?ss0] by simp
  moreover have "\<forall>(c, m)\<in>set (ms_toSave ?st'). ss_disk (snd (saveAll (ms_toSave ?st') ?ss0)) c = Some m"
    using saveAll_disk [OF d, of ?ss0] by auto
  ultimately show ?thesis using s r m by auto
qed

lemma analyzeMeta_returns:
  "hierarchyBounded disk (stageCompiled parseJsDoc compiled Map.empty) fuel \<Longrightarrow>
   \<exists>r. analyzeMeta parseJsDoc disk fuel db compiled fixups docs = Some r"
  using mergeCompiled_returns [of disk
          "\<lparr> ms_cache = stageCompiled parseJsDoc compiled Map.empty, ms_toSave = [],
             ms_protoJsdoc = docs \<rparr>" fuel db "keys compiled"]
  by (auto simp: analyzeMeta_def Let_def split: prod.splits sum.splits)

lemma analyzeMeta_completes:
  "hierarchyBounded disk (stageCompiled parseJsDoc compiled Map.empty) fuel \<Longrightarrow>
   allPlain disk (stageCompiled parseJsDoc compiled Map.empty) \<Longrightarrow>
   \<exists>r. analyzeMeta parseJsDoc disk fuel db compiled fixups docs = Some (Inr r)"
  using mergeCompiled_completes [of disk
          "\<lparr> ms_cache = stageCompiled parseJsDoc compiled Map.empty, ms_toSave = [],
             ms_protoJsdoc = docs \<rparr>" fuel db "keys compiled"]
  by (auto simp: analyzeMeta_def Let_def split: prod.splits)

lemma analyzeMeta_error:
  "analyzeMeta parseJsDoc disk fuel db compiled fixups docs = Some (Inl e) \<Longrightarrow>
   \<exists>n. e = TypeError n"
  by (auto simp: analyzeMeta_def Let_def split: option.splits sum.splits prod.splits
        dest: mergeCompiled_error)

subsection \<open>The listener\<close>










lemma exListened_eq: "listen [exDataB] = ([(''A'', True)], [(''B'', exDataB)])"
  by (simp add: listen_def onCompiledClass_def noteAncestors_def exDataB_def exInfo_def
        truthy_def namesOf_def)

lemma exRun_stage:
  "stageCompiled exParse (snd (listen [exDataB])) Map.empty
     = Map.empty(''B'' \<mapsto> fixupMetaData exParse ''B'' exMetaB)"
  by (simp only: exListened_eq) (simp add: stageCompiled_def exDataB_def)

lemma exRun_metas:
  assumes "stageCompiled exParse (snd (listen [exDataB])) Map.empty c = Some meta
           \<or> exDisk c = Some meta"
  shows "(ancestorNames meta = [] \<or> ancestorNames meta = [''A'']) \<and> plainNames meta"
  using assms unfolding exRun_stage
  by (auto simp: exDisk_def fixupMetaData_def
        exMetaA_def exMetaB_def exClass_def exMember_def ancestorNames_def namesOf_def
        superNames_def plainNames_def plainMethods_def methodNames_def propertyNames_def
        objectPrototypeNames_def
        split: if_splits)

lemma exRun_bounded:
  "hierarchyBounded exDisk (stageCompiled exParse (snd (listen [exDataB])) Map.empty) 3"
proof -
  let ?ws = "stageCompiled exParse (snd (listen [exDataB])) Map.empty"
  have a: "lookupMeta exDisk ?ws ''A'' = Some exMetaA"
    unfolding exRun_stage by (simp add: lookupMeta_def loadMetaData_def exDisk_def)
  have "ancestorNames exMetaA = []"
    by (simp add: exMetaA_def exClass_def ancestorNames_def namesOf_def superNames_def)
  then have a2: "boundedAncestry (lookupMeta exDisk ?ws) (Suc (Suc 0)) (lookupMeta exDisk ?ws ''A'')"
    using a by simp
  have b: "boundedAncestry (lookupMeta exDisk ?ws) 3 (Some meta)"
    if "ancestorNames meta = [] \<or> ancestorNames meta = [''A'']" for meta
    using that a2 by (auto simp: eval_nat_numeral)
  show ?thesis unfolding hierarchyBounded_def using b exRun_metas by blast
qed

lemma exRun_plain: "allPlain exDisk (stageCompiled exParse (snd (listen [exDataB])) Map.empty)"
  unfolding allPlain_def using exRun_metas by blast

lemma exThrowingRun:
  "(case analyzeMeta exParse exDisk 3 exRunDb (snd (listen [exDataT])) (fst (listen [exDataT]))
           noDocs of
      Some (Inl (TypeError n)) \<Rightarrow> n = ''toString''
    | _ \<Rightarrow> False)"
  by code_simp

text \<open>
  Claim C6. A call of \<open>saveMetaData\<close> for a class that the log of the run already holds
  writes nothing and returns the error; so does every second call for the same class.
  A run of \<open>analyzeMeta\<close> (the merge and the descendant fixup, then the saving) that
  reaches the saving raises no such error, and its trace of writes names no class
  twice; a run whose merge throws saves nothing, and what it throws is a \<^verbatim>\<open>TypeError\<close>.
  The run ends when the hierarchy of the metas is bounded by the fuel, and it reaches the
  saving when moreover no method and no property of a meta bears the name of a member of
  \<^verbatim>\<open>Object.prototype\<close>.
\<close>

theorem meta_written_once:
  "(classname \<in> ss_metaWrittenLog ss \<longrightarrow>
      saveMetaData classname meta ss = (Some (WrittenTwice classname), ss))
   \<and> saveMetaData classname meta' (snd (saveMetaData classname meta ss)) =
       (Some (WrittenTwice classname), snd (saveMetaData classname meta ss))
   \<and> (analyzeMeta parseJsDoc disk fuel db compiled fixups docs = Some (Inr r) \<longrightarrow>
        rr_errors r = [] \<and> distinct (map fst (ss_writes (rr_saved r))))
   \<and> (analyzeMeta parseJsDoc disk fuel db compiled fixups docs = Some (Inl e) \<longrightarrow>
        (\<exists>n. e = TypeError n))
   \<and> (hierarchyBounded disk (stageCompiled parseJsDoc compiled Map.empty) fuel \<longrightarrow>
        (\<exists>res. analyzeMeta parseJsDoc disk fuel db compiled fixups docs = Some res))
   \<and> (hierarchyBounded disk (stageCompiled parseJsDoc compiled Map.empty) fuel
        \<and> allPlain disk (stageCompiled parseJsDoc compiled Map.empty) \<longrightarrow>
        (\<exists>r. analyzeMeta parseJsDoc disk fuel db compiled fixups docs = Some (Inr r)))"
proof -
  have "analyzeMeta parseJsDoc disk fuel db compiled fixups docs = Some (Inr r) \<Longrightarrow>
        rr_errors r = [] \<and> distinct (map fst (ss_writes (rr_saved r)))"
    using analyzeMeta_writes [of parseJsDoc disk fuel db compiled fixups docs r]
    by (auto simp: staged_def rev_map [symmetric])
  then show ?thesis
    using analyzeMeta_returns [of disk parseJsDoc compiled fuel db fixups docs]
      analyzeMeta_completes [of disk parseJsDoc compiled fuel db fixups docs]
      analyzeMeta_error [of parseJsDoc disk fuel db compiled fixups docs e]
    by (auto simp: saveMetaData_def)
qed


theorem meta_written_once_witness:
  "''B'' \<in> ss_metaWrittenLog \<lparr> ss_metaWrittenLog = {''B''}, ss_disk = exDisk, ss_writes = [] \<rparr>
   \<and> saveMetaData ''B'' exMetaB \<lparr> ss_metaWrittenLog = {''B''}, ss_disk = exDisk, ss_writes = [] \<rparr>
       = (Some (WrittenTwice ''B''),
          \<lparr> ss_metaWrittenLog = {''B''}, ss_disk = exDisk, ss_writes = [] \<rparr>)
   \<and> hierarchyBounded exDisk (stageCompiled exParse (snd (listen [exDataB])) Map.empty) 3
   \<and> allPlain exDisk (stageCompiled exParse (snd (listen [exDataB])) Map.empty)
   \<and> (\<exists>r. analyzeMeta exParse exDisk 3 exRunDb (snd (listen [exDataB])) (fst (listen [exDataB]))
             noDocs = Some (Inr r)
          \<and> rr_errors r = [] \<and> distinct (map fst (ss_writes (rr_saved r))))
   \<and> analyzeMeta exParse exDisk 3 exRunDb (snd (listen [exDataT])) (fst (listen [exDataT]))
        noDocs = Some (Inl (TypeError ''toString''))"
proof -
  let ?ss = "\<lparr> ss_metaWrittenLog = {''B''}, ss_disk = exDisk, ss_writes = [] \<rparr>"
  note t = meta_written_once [where classname = "''B''" and ss = ?ss and meta = exMetaB
      and meta' = exMetaB and parseJsDoc = exParse and disk = exDisk and fuel = 3
      and db = exRunDb and compiled = "snd (listen [exDataB])"
      and fixups = "fst (listen [exDataB])" and docs = noDocs]
  from t exRun_bounded exRun_plain obtain r where
    r: "analyzeMeta exParse exDisk 3 exRunDb (snd (listen [exDataB])) (fst (listen [exDataB]))
          noDocs = Some (Inr r)"
    by blast
  have "rr_errors r = [] \<and> distinct (map fst (ss_writes (rr_saved r)))"
    using t [where r = r] r by blast
  moreover have "saveMetaData ''B'' exMetaB ?ss = (Some (WrittenTwice ''B''), ?ss)"
    using t [where r = r] by simp
  moreover have "analyzeMeta exParse exDisk 3 exRunDb (snd (listen [exDataT]))
                   (fst (listen [exDataT])) noDocs = Some (Inl (TypeError ''toString''))"
    using exThrowingRun by (auto split: option.splits sum.splits error.splits)
  ultimately show ?thesis using r exRun_bounded exRun_plain by auto
qed


subsection \<open>Accessor completeness and the overriddenFrom of synthesized accessors\<close>

lemma synthesized_table:
  assumes "cm_properties meta = Some ps"
  shows "ce_members (synthesizeAccessors meta first ce) =
           fold (\<lambda>(P, pm) m. addAccessors first P pm m) ps (ce_members ce)"
  using assms by (simp add: synthesizeAccessors_def)

lemma accessor_row_after_synthesis:
  assumes "cm_properties meta = Some ps" and "(P, pm) \<in> set ps"
    and "n \<in> set (accessorNames P pm)" and "n \<notin> set objectPrototypeNames"
  shows "\<exists>r. map_of (ce_members (synthesizeAccessors meta first ce)) n = Some r
           \<and> \<not> ei_abstract r
           \<and> (map_of (ce_members ce) n = Some r \<or> truthy (ei_property r))"
proof -
  let ?T = "ce_members (synthesizeAccessors meta first ce)"
  have "existsConcrete ?T n"
    using synth_names [OF assms(4,2,3)] by (simp add: synthesized_table [OF assms(1)])
  moreover have "keptOrAccessor (ce_members ce) ?T n"
    using synth_keptOrAccessor [of "ce_members ce" "ce_members ce" n first ps]
    by (simp add: synthesized_table [OF assms(1)] keptOrAccessor_def)
  ultimately show ?thesis
    by (auto simp: existsConcrete_def keptOrAccessor_def split: option.splits)
qed

lemma merged_accessors:
  assumes "updateMetaData disk (Suc k) classname meta ws docs = Some (Inr (meta', ws', docs'))"
    and "cm_properties meta = Some ps"
  shows "(\<forall>(P, pm)\<in>set ps. \<forall>n\<in>set (accessorNames P pm).
            n \<in> set (memberNames meta')
            \<or> n \<in> set objectPrototypeNames
            \<or> (n \<notin> set (memberNames meta)
                \<and> (\<exists>st e. ancestorEntities disk k meta ws docs = Some (Inr st)
                      \<and> map_of (ce_members (ws_entities st)) n = Some e \<and> plainRow e)))
       \<and> (\<forall>n\<in>set (memberNames meta').
            n \<in> set (memberNames meta)
            \<or> (\<exists>(P, pm)\<in>set ps. n \<in> set (accessorNames P pm))
            \<or> (\<exists>st. ancestorEntities disk k meta ws docs = Some (Inr st)
                  \<and> n \<in> fst ` set (ce_members (ws_entities st))))"
proof -
  from updateMetaData_Suc [OF assms(1)] obtain st where
    st: "ancestorEntities disk k meta ws docs = Some (Inr st)"
    and w: "writeBack (synthesizeAccessors meta True (ws_entities st)) (ws_protoJsdoc st) meta
              = Inr meta'"
    by blast
  let ?ce = "synthesizeAccessors meta True (ws_entities st)"
  from writeBack_members [OF w] obtain ms1 where
    k1: "fst ` set ms1 = set (memberNames meta)"
    and names: "set (memberNames meta') = fst ` set (mergedMembers ?ce ms1 (cm_abstract meta))"
    by blast
  have present: "n \<in> set (memberNames meta')
      \<or> n \<in> set objectPrototypeNames
      \<or> (n \<notin> set (memberNames meta)
          \<and> (\<exists>e. map_of (ce_members (ws_entities st)) n = Some e \<and> plainRow e))"
    if "(P, pm) \<in> set ps" and "n \<in> set (accessorNames P pm)" for P pm n
  proof (cases "n \<in> set objectPrototypeNames \<or> n \<in> set (memberNames meta)")
    case True
    then show ?thesis using writeBack_keeps_names [OF w] by blast
  next
    case False
    then have np: "n \<notin> set objectPrototypeNames" by simp
    from accessor_row_after_synthesis [OF assms(2) that np, of True "ws_entities st"]
    obtain r where r: "map_of (ce_members ?ce) n = Some r" "\<not> ei_abstract r"
      and o: "map_of (ce_members (ws_entities st)) n = Some r \<or> truthy (ei_property r)"
      by blast
    show ?thesis
    proof (cases "ei_mixin r \<or> truthy (ei_property r)")
      case True
      have "(n, r) \<in> set (ce_members ?ce)" using r(1) by (rule map_of_SomeD)
      then have "n \<in> fst ` set (mergedMembers ?ce ms1 (cm_abstract meta))"
        unfolding mergedMembers_def using True np
        by (intro fold_materializeMember_adds) auto
      then show ?thesis using names by simp
    next
      case f: False
      then show ?thesis using r o False by (auto simp: plainRow_def)
    qed
  qed
  have only: "n \<in> set (memberNames meta)
      \<or> (\<exists>(P, pm)\<in>set ps. n \<in> set (accessorNames P pm))
      \<or> n \<in> fst ` set (ce_members (ws_entities st))"
    if "n \<in> set (memberNames meta')" for n
  proof -
    have "n \<in> fst ` set (ce_members ?ce) \<union> set (memberNames meta)"
      using that names k1
        fold_materializeMember_keys_sub [of "ce_members ?ce" "(ms1, cm_abstract meta)"]
      unfolding mergedMembers_def by auto
    moreover have "fst ` set (ce_members ?ce)
        \<subseteq> (\<Union>(P, pm)\<in>set ps. set (accessorNames P pm)) \<union> fst ` set (ce_members (ws_entities st))"
      using synth_keys [of True ps "ce_members (ws_entities st)"]
      by (simp add: synthesized_table [OF assms(2)])
    ultimately have "n \<in> (\<Union>(P, pm)\<in>set ps. set (accessorNames P pm))
        \<union> fst ` set (ce_members (ws_entities st)) \<union> set (memberNames meta)"
      by blast
    then show ?thesis by blast
  qed
  show ?thesis using present only st by blast
qed

text \<open>
  Claim C2, as amended. The merge of a class ends when the hierarchy of the class is
  bounded by the fuel, and it completes when moreover the class has no method, and no
  visited meta a method or a property, under the name of a member of
  \<^verbatim>\<open>Object.prototype\<close>. Let the merge complete. For every property \<open>P\<close> of the class and
  every accessor name that the specification requires for \<open>P\<close> (get, set and reset; is
  when the check is Boolean; getAsync and setAsync, and isAsync for a Boolean, when \<open>P\<close>
  is async), the merged members contain the name, unless it is the name of a member of
  \<^verbatim>\<open>Object.prototype\<close>, or an ordinary inherited method: a name that the class's own
  meta does not list and for which the table of the class and its ancestors held a row
  that is neither abstract, nor from a mixin, nor tagged with a property. And every
  merged member is a member the class declared, an accessor name required by one of its
  properties, or a name that the class or an ancestor contributed to the table: the
  merge adds no other accessor.
\<close>

theorem accessor_completeness:
  assumes "cm_properties meta = Some ps"
  shows "(boundedAncestry (lookupMeta disk ws) (Suc k) (Some meta) \<longrightarrow>
            (\<exists>res. updateMetaData disk (Suc k) classname meta ws docs = Some res))
       \<and> (boundedAncestry (lookupMeta disk ws) (Suc k) (Some meta) \<and> plainMethods meta
           \<and> (\<forall>x mm. lookupMeta disk ws x = Some mm \<longrightarrow> plainNames mm) \<longrightarrow>
            (\<exists>meta' ws' docs'.
                updateMetaData disk (Suc k) classname meta ws docs = Some (Inr (meta', ws', docs'))))
       \<and> (\<forall>meta' ws' docs'.
            updateMetaData disk (Suc k) classname meta ws docs = Some (Inr (meta', ws', docs')) \<longrightarrow>
            (\<forall>(P, pm)\<in>set ps. \<forall>n\<in>set (accessorNames P pm).
               n \<in> set (memberNames meta')
               \<or> n \<in> set objectPrototypeNames
               \<or> (n \<notin> set (memberNames meta)
                   \<and> (\<exists>st e. ancestorEntities disk k meta ws docs = Some (Inr st)
                         \<and> map_of (ce_members (ws_entities st)) n = Some e \<and> plainRow e)))
            \<and> (\<forall>n\<in>set (memberNames meta').
                 n \<in> set (memberNames meta)
                 \<or> (\<exists>(P, pm)\<in>set ps. n \<in> set (accessorNames P pm))
                 \<or> (\<exists>st. ancestorEntities disk k meta ws docs = Some (Inr st)
                       \<and> n \<in> fst ` set (ce_members (ws_entities st)))))"
  using updateMetaData_returns [of disk ws "Suc k" meta classname docs]
    updateMetaData_completes [of disk ws "Suc k" meta classname docs]
    merged_accessors [OF _ assms, of disk k classname ws docs]
  by blast








subsection \<open>The merge on the example classes\<close>

lemma exLibrary_plain: "\<forall>x mm. lookupMeta exLibrary Map.empty x = Some mm \<longrightarrow> plainNames mm"
proof (intro allI impI)
  fix x mm assume "lookupMeta exLibrary Map.empty x = Some mm"
  then have "exLibrary x = Some mm" using lookupMeta_in by fastforce
  then show "plainNames mm"
    by (auto simp: exLibrary_def exInterfaceI_def exSuperS_def exMixinM_def exClass_def
          exMember_def exFooString_def plainNames_def plainMethods_def methodNames_def
          propertyNames_def keys_def objectPrototypeNames_def split: if_splits)
qed

lemma exLibrary_allPlain: "allPlain exLibrary Map.empty"
  unfolding allPlain_def
  by (auto simp: exLibrary_def exInterfaceI_def exSuperS_def exMixinM_def exClass_def
        exMember_def exFooString_def plainNames_def plainMethods_def methodNames_def
        propertyNames_def keys_def objectPrototypeNames_def split: if_splits)

lemma exImplementsI_bounded:
  "boundedAncestry (lookupMeta exLibrary Map.empty) (Suc 1) (Some exImplementsI)"
  by code_simp

lemma exImplementsI_plain: "plainMethods exImplementsI"
  by (simp add: plainMethods_def methodNames_def exImplementsI_def exClass_def)

lemma exImplementsI_table:
  "(case ancestorEntities exLibrary 1 exImplementsI Map.empty noDocs of
      Some (Inr st) \<Rightarrow> ce_members (ws_entities st) = [(''getFoo'', exRow True)]
    | _ \<Rightarrow> False)"
  by code_simp

lemma exImplementsI_merged:
  "(case updateMetaData exLibrary (Suc 1) ''C'' exImplementsI Map.empty noDocs of
      Some (Inr (meta', ws', docs')) \<Rightarrow>
        (case memberOf meta' ''getFoo'' of
           None \<Rightarrow> False
         | Some e \<Rightarrow> mm_overriddenFrom e = None \<and> mm_appearsIn e = None
                      \<and> mm_property e = Some ''get'')
    | _ \<Rightarrow> False)"
  by code_simp

lemma exExtendsS_merged:
  "(case updateMetaData exLibrary (Suc 1) ''C'' exExtendsS Map.empty noDocs of
      Some (Inr (meta', ws', docs')) \<Rightarrow> memberNames meta' = [''setFoo'', ''resetFoo'']
    | _ \<Rightarrow> False)"
  by code_simp


lemma exMixinM_merged:
  "(case updateMetaData exLibrary (Suc 0) ''M'' exMixinM Map.empty noDocs of
      Some (Inr (meta', ws', docs')) \<Rightarrow>
        (case cm_properties meta' of
           None \<Rightarrow> False
         | Some ps \<Rightarrow>
             (case map_of ps ''foo'' of
                None \<Rightarrow> False
              | Some p \<Rightarrow> pm_check p = None \<and> pm_mixin p = Some True
                           \<and> pm_type p = Some ''property''))
    | _ \<Rightarrow> False)"
  by code_simp

text \<open>
  A class with a method \<open>toString\<close> cannot be merged, and neither can a class that
  extends it: both calls throw.
\<close>

lemma merge_throws_on_toString:
  "(case updateMetaData exDiskT 2 ''T'' exToString Map.empty noDocs of
      Some (Inl (TypeError n)) \<Rightarrow> n = ''toString'' | _ \<Rightarrow> False)"
  "(case updateMetaData exDiskT 2 ''U'' exExtendsT Map.empty noDocs of
      Some (Inl (TypeError n)) \<Rightarrow> n = ''toString'' | _ \<Rightarrow> False)"
  by code_simp+

theorem accessor_completeness_witness:
  "cm_properties exImplementsI = Some exFooString
   \<and> boundedAncestry (lookupMeta exLibrary Map.empty) (Suc 1) (Some exImplementsI)
   \<and> plainMethods exImplementsI
   \<and> allPlain exLibrary Map.empty
   \<and> (\<exists>meta' ws' docs'.
         updateMetaData exLibrary (Suc 1) ''C'' exImplementsI Map.empty noDocs
           = Some (Inr (meta', ws', docs'))
         \<and> set (accessorNames ''foo'' (exProperty (Some ''String'') False))
             \<subseteq> set (memberNames meta'))"
proof -
  have p: "cm_properties exImplementsI = Some exFooString"
    by (simp add: exImplementsI_def exClass_def)
  note t = accessor_completeness [OF p, where disk = exLibrary and ws = Map.empty and k = 1
      and classname = "''C''" and docs = noDocs]
  from t exImplementsI_bounded exImplementsI_plain exLibrary_plain obtain meta' ws' docs' where
    u: "updateMetaData exLibrary (Suc 1) ''C'' exImplementsI Map.empty noDocs
          = Some (Inr (meta', ws', docs'))"
    by blast
  have f: "(''foo'', exProperty (Some ''String'') False) \<in> set exFooString"
    by (simp add: exFooString_def)
  have np: "\<not> (\<exists>st e. ancestorEntities exLibrary 1 exImplementsI Map.empty noDocs = Some (Inr st)
                  \<and> map_of (ce_members (ws_entities st)) n = Some e \<and> plainRow e)" for n
    using exImplementsI_table
    by (auto simp: plainRow_def exRow_def split: option.splits sum.splits if_splits)
  have nn: "n \<notin> set objectPrototypeNames"
    if "n \<in> set (accessorNames ''foo'' (exProperty (Some ''String'') False))" for n
    using that
    by (auto simp: accessorNames_def firstUp_foo propertyType_def exProperty_def truthy_def
          objectPrototypeNames_def)
  have "n \<in> set (memberNames meta')"
    if "n \<in> set (accessorNames ''foo'' (exProperty (Some ''String'') False))" for n
    using t u f that np [of n] nn [OF that] by blast
  then show ?thesis
    using u p exImplementsI_bounded exImplementsI_plain exLibrary_allPlain by blast
qed

text \<open>
  The claim as stated fails: \<open>C\<close> has the String property \<open>foo\<close> and extends \<open>S\<close>,
  which declares the method \<open>getFoo\<close>; the merged members of \<open>C\<close> have no \<open>getFoo\<close>.
\<close>

theorem inherited_getter_not_in_members_counterexample:
  "\<exists>meta' ws' docs'.
      updateMetaData exLibrary (Suc 1) ''C'' exExtendsS Map.empty noDocs
        = Some (Inr (meta', ws', docs'))
      \<and> map_option pm_check (map_of exFooString ''foo'') = Some (Some ''String'')
      \<and> cm_properties exExtendsS = Some exFooString
      \<and> ''getFoo'' \<notin> set (memberNames meta')"
  using exExtendsS_merged
  by (auto simp: exFooString_def exProperty_def exExtendsS_def exClass_def
        split: option.splits sum.splits)



text \<open>
  Claim C1 at the class \<open>C\<close> that has the property \<open>foo\<close> and implements the interface
  \<open>I\<close>, which declares \<open>getFoo\<close>. When the walk is back at \<open>C\<close>, the row of \<open>getFoo\<close>
  has \<open>overriddenFrom = I\<close>, the first ancestor that defines it. The synthesis replaces
  the abstract row and reads \<^verbatim>\<open>appearsIn[0]\<close> for the new \<open>overriddenFrom\<close>; the merged
  member \<open>getFoo\<close> of \<open>C\<close> has no \<open>overriddenFrom\<close>.
\<close>

theorem synthesized_getter_loses_overriddenFrom:
  "\<exists>meta' ws' docs' st row e.
      ancestorEntities exLibrary 1 exImplementsI Map.empty noDocs = Some (Inr st)
      \<and> map_of (ce_members (ws_entities st)) ''getFoo'' = Some row
      \<and> ei_overriddenFrom row = Some ''I''
      \<and> updateMetaData exLibrary (Suc 1) ''C'' exImplementsI Map.empty noDocs
          = Some (Inr (meta', ws', docs'))
      \<and> memberOf meta' ''getFoo'' = Some e \<and> mm_property e = Some ''get''
      \<and> mm_overriddenFrom e = None"
  using exImplementsI_merged exImplementsI_table
  by (auto simp: exRow_def split: option.splits sum.splits)

text \<open>
  Claim C9 at the mixin \<open>M\<close> that declares the property \<open>foo\<close> with the check String.
  The test \<^verbatim>\<open>!meta.properties[propertyInfo]\<close> holds for every row, so the entry that
  \<open>M\<close> itself declares is replaced by the minimal entry: the check is gone.
\<close>

theorem own_property_materialized_over:
  "\<exists>meta' ws' docs' ps p.
      map_option pm_check (map_of exFooString ''foo'') = Some (Some ''String'')
      \<and> cm_properties exMixinM = Some exFooString
      \<and> updateMetaData exLibrary (Suc 0) ''M'' exMixinM Map.empty noDocs
          = Some (Inr (meta', ws', docs'))
      \<and> cm_properties meta' = Some ps \<and> map_of ps ''foo'' = Some p
      \<and> pm_check p = None \<and> pm_type p = Some ''property'' \<and> pm_mixin p = Some True"
  using exMixinM_merged
  by (auto simp: exFooString_def exProperty_def exMixinM_def exClass_def
        split: option.splits sum.splits)

end
